theory Spec2Isabelle
  imports Complex_Main "HOL-Library.Monad_Syntax"
begin

section \<open>Values, exceptions and events\<close>

text \<open>
  The script \<^verbatim>\<open>fetch_data1.py\<close> is one linear run that talks to two outside services
  (a maps client \<^verbatim>\<open>gmaps\<close> and a completion client \<^verbatim>\<open>client\<close>) and to the
  pandas and matplotlib libraries. The run is modelled as a function of a \<open>world\<close>: what
  every outside call answers. Its result is the list of observable events, in order, and
  the way the process ends.

  Python exceptions: \<^verbatim>\<open>sys.exit(n)\<close> raises \<^verbatim>\<open>SystemExit\<close>, which is not an
  \<^verbatim>\<open>Exception\<close> and so passes through \<^verbatim>\<open>except Exception\<close>; everything a called
  service or a failed lookup raises is an \<^verbatim>\<open>Exception\<close>, kept with the text that
  \<^verbatim>\<open>str(e)\<close> gives. Signals that are no result of a call (a keyboard interrupt) are not
  part of the model.
\<close>

datatype exn = SystemExit nat | Exception string

text \<open>The values \<^verbatim>\<open>json.loads\<close> can return.\<close>

datatype json =
    JNull
  | JBool bool
  | JInt int
  | JFloat rat
  | JStr string
  | JArr "json list"
  | JObj "(string \<times> json) list"

text \<open>
  A table as pandas holds it: the column names and the rows of cells. How pandas renders
  a cell as text is not modelled.
\<close>

datatype cell = CStr string | CFloat rat | CInt int | CNone

record data_frame =
  columns :: "string list"
  rows :: "cell list list"

text \<open>
  The cross-tabulation of line 170: one row per (business, aspect) key, one column per
  sentiment label, one number per row and column.
\<close>

record crosstab =
  ct_index :: "(string \<times> string) list"
  ct_columns :: "json list"
  ct_values :: "rat list list"

datatype event =
    Print string
  | PrintFrame data_frame
  | PrintSummary crosstab
  | Input string
  | Sleep nat
  | CallGeocode string
  | CallPlacesNearby "rat \<times> rat" nat string string
  | CallPlace string "string option"
  | CallGenerate string
  | WriteCsv string data_frame
  | ShowScatter data_frame
  | ShowBar string

fun is_CallGenerate :: "event \<Rightarrow> bool" where
  "is_CallGenerate (CallGenerate p) = True"
| "is_CallGenerate e = False"

fun is_WriteCsv :: "event \<Rightarrow> bool" where
  "is_WriteCsv (WriteCsv f d) = True"
| "is_WriteCsv e = False"

fun is_ShowScatter :: "event \<Rightarrow> bool" where
  "is_ShowScatter (ShowScatter d) = True"
| "is_ShowScatter e = False"

subsection \<open>Strings\<close>

text \<open>Decimal text of a number, as an f-string writes it.\<close>

fun str_nat :: "nat \<Rightarrow> string" where
  "str_nat n =
     (if n < 10 then [char_of (48 + n)]
      else str_nat (n div 10) @ [char_of (48 + n mod 10)])"

declare str_nat.simps [simp del]

text \<open>
  \<^verbatim>\<open>str.strip()\<close>: white space is dropped at both ends. Characters are bytes here, so
  the white space is the ASCII part of what Python strips.
\<close>

definition isspace :: "char \<Rightarrow> bool" where
  "isspace c = (c \<in> set [CHR 0x09, CHR 0x0A, CHR 0x0B, CHR 0x0C, CHR 0x0D,
                          CHR 0x1C, CHR 0x1D, CHR 0x1E, CHR 0x1F, CHR 0x20])"

definition strip :: "string \<Rightarrow> string" where
  "strip s = rev (dropWhile isspace (rev (dropWhile isspace s)))"

text \<open>\<^verbatim>\<open>str.lower()\<close> on the ASCII letters.\<close>

definition lower_char :: "char \<Rightarrow> char" where
  "lower_char c =
     (let n = (of_char c :: nat) in if 65 \<le> n \<and> n \<le> 90 then char_of (n + 32) else c)"

definition lower :: "string \<Rightarrow> string" where
  "lower s = map lower_char s"

text \<open>Truth value of an optional string: \<^verbatim>\<open>None\<close> and the empty string are false.\<close>

fun truthy :: "string option \<Rightarrow> bool" where
  "truthy None = False"
| "truthy (Some s) = (s \<noteq> [])"

section \<open>The completion client and the extraction stage\<close>

text \<open>
  \<open>generate_content c k p\<close> is what the \<open>k\<close>-th completion call of the run answers to the
  prompt \<open>p\<close>: \<open>Inl msg\<close> when the call raises, \<open>Inr t\<close> when it returns a response whose
  \<^verbatim>\<open>.text\<close> is \<open>t\<close> (\<open>None\<close> when the response has no text). \<open>json_loads c\<close> is
  \<^verbatim>\<open>json.loads\<close>, a library function taken as given: \<open>Inl msg\<close> when it raises. The
  two are kept in one record, so that the stage has all it depends on in one argument.
\<close>

record extractor =
  generate_content :: "nat \<Rightarrow> string \<Rightarrow> string + string option"
  json_loads :: "string \<Rightarrow> string + json"

text \<open>The f-string of lines 35 to 42.\<close>

definition prompt :: "string \<Rightarrow> string" where
  "prompt review_text =
     [CHR 0x0A] @
     ''                You are a review analysis assistant.'' @ [CHR 0x0A] @
     ''                Extract key aspects mentioned in the review below and classify the sentiment'' @ [CHR 0x0A] @
     ''                (positive, negative, neutral) for each aspect.'' @ [CHR 0x0A] @
     ''                Return a valid JSON object only, where keys are aspects and values are sentiments.'' @ [CHR 0x0A] @
     [CHR 0x0A] @
     ''                Review: '' @ [CHR 0x22] @ review_text @ [CHR 0x22] @ [CHR 0x0A] @
     ''                ''"

text \<open>
  The body of the \<^verbatim>\<open>try\<close> of lines 34 to 52 at one attempt: the events it causes, and
  \<open>Inl e\<close> when it raises, \<open>Inr (Some v)\<close> when it appends \<open>v\<close> and breaks, \<open>Inr None\<close>
  when the text was empty.
\<close>

definition try_body :: "extractor \<Rightarrow> nat \<Rightarrow> string \<Rightarrow> nat \<Rightarrow> event list \<times> (exn + json option)" where
  "try_body client k review_text attempt =
     (case generate_content client k (prompt review_text) of
        Inl msg \<Rightarrow> ([CallGenerate (prompt review_text)], Inl (Exception msg))
      | Inr None \<Rightarrow>
          ([CallGenerate (prompt review_text)],
           Inl (Exception (CHR 0x27 # ''NoneType'' @ CHR 0x27 # '' object has no attribute '' @ CHR 0x27 # ''strip'' @ [CHR 0x27])))
      | Inr (Some t) \<Rightarrow>
          (let text = strip t in
           if text \<noteq> [] then
             (case json_loads client text of
                Inl msg \<Rightarrow> ([CallGenerate (prompt review_text)], Inl (Exception msg))
              | Inr v \<Rightarrow> ([CallGenerate (prompt review_text)], Inr (Some v)))
           else
             ([CallGenerate (prompt review_text),
               Print (''Empty response, retry '' @ str_nat (attempt + 1))], Inr None)))"

text \<open>
  The loop \<^verbatim>\<open>for attempt in range(retries)\<close> with its \<^verbatim>\<open>else\<close>: \<open>attempt\<close> is the loop
  variable and the last argument counts the attempts left. The handler
  \<^verbatim>\<open>except Exception\<close> takes an \<open>Exception\<close> and lets anything else through. The result
  is the events, the value appended to \<^verbatim>\<open>batch_results\<close> (or what escaped), and the
  number of completion calls made so far in the run.
\<close>

fun retry_loop :: "extractor \<Rightarrow> nat \<Rightarrow> string \<Rightarrow> nat \<Rightarrow> nat \<Rightarrow> event list \<times> (exn + json) \<times> nat" where
  "retry_loop client k review_text attempt 0 = ([], Inr (JObj []), k)"
| "retry_loop client k review_text attempt (Suc n) =
     (case try_body client k review_text attempt of
        (tr, Inr (Some v)) \<Rightarrow> (tr, Inr v, Suc k)
      | (tr, Inr None) \<Rightarrow>
          (case retry_loop client (Suc k) review_text (Suc attempt) n of
             (tr', r, k') \<Rightarrow> (tr @ [Sleep 1] @ tr', r, k'))
      | (tr, Inl (Exception msg)) \<Rightarrow>
          (case retry_loop client (Suc k) review_text (Suc attempt) n of
             (tr', r, k') \<Rightarrow>
               (tr @ [Print (''Attempt '' @ str_nat (attempt + 1) @ '' failed: '' @ msg), Sleep 1] @ tr',
                r, k'))
      | (tr, Inl (SystemExit c)) \<Rightarrow> (tr, Inl (SystemExit c), Suc k))"

text \<open>The loop over \<^verbatim>\<open>review_texts\<close>, with \<^verbatim>\<open>batch_results\<close> as it grows.\<close>

fun batch_loop ::
  "extractor \<Rightarrow> nat \<Rightarrow> string list \<Rightarrow> nat \<Rightarrow> json list \<Rightarrow> event list \<times> (exn + json list) \<times> nat" where
  "batch_loop client k [] retries batch_results = ([], Inr batch_results, k)"
| "batch_loop client k (review_text # rest) retries batch_results =
     (case retry_loop client k review_text 0 retries of
        (tr, Inl e, k') \<Rightarrow> (tr, Inl e, k')
      | (tr, Inr v, k') \<Rightarrow>
          (case batch_loop client k' rest retries (batch_results @ [v]) of
             (tr', r, k'') \<Rightarrow> (tr @ tr', r, k'')))"

definition analyze_reviews_batch ::
  "extractor \<Rightarrow> nat \<Rightarrow> string list \<Rightarrow> nat \<Rightarrow> event list \<times> (exn + json list) \<times> nat" where
  "analyze_reviews_batch client k review_texts retries = batch_loop client k review_texts retries []"

text \<open>An attempt fails when the call raises, has no or only blank text, or the text does not parse.\<close>

definition attempt_fails :: "extractor \<Rightarrow> nat \<Rightarrow> string \<Rightarrow> bool" where
  "attempt_fails client k review_text =
     (case generate_content client k (prompt review_text) of
        Inl msg \<Rightarrow> True
      | Inr None \<Rightarrow> True
      | Inr (Some t) \<Rightarrow> strip t = [] \<or> (case json_loads client (strip t) of Inl msg \<Rightarrow> True | Inr v \<Rightarrow> False))"

text \<open>
  What an attempt appends when it succeeds: the value parsed from the stripped text of
  the answer to the \<open>k\<close>-th call, when the call returns text that is not blank and parses.
\<close>

definition parsed_answer :: "extractor \<Rightarrow> nat \<Rightarrow> string \<Rightarrow> json option" where
  "parsed_answer client k review_text =
     (case generate_content client k (prompt review_text) of
        Inl msg \<Rightarrow> None
      | Inr None \<Rightarrow> None
      | Inr (Some t) \<Rightarrow>
          if strip t = [] then None
          else (case json_loads client (strip t) of Inl msg \<Rightarrow> None | Inr v \<Rightarrow> Some v))"

section \<open>The maps client: location, discovery and review pages\<close>

text \<open>
  The documents the maps service returns are dictionaries; each is a record with one
  optional field per key the script reads (\<open>None\<close>: the key is absent).
\<close>

record location_doc =
  lat :: "rat option"
  lng :: "rat option"

record geometry_doc =
  location :: "location_doc option"

record candidate =
  geometry :: "geometry_doc option"

record place_doc =
  place_id :: "string option"
  name :: "string option"
  vicinity :: "string option"
  rating :: "rat option"
  user_ratings_total :: "int option"

record places_response =
  results :: "place_doc list option"

record review_doc =
  r_text :: "string option"
  r_rating :: "rat option"

record result_doc =
  reviews :: "review_doc list option"

record details_response =
  result :: "result_doc option"
  next_page_token :: "string option"

text \<open>
  What the service answers: \<open>Inl msg\<close> when the call raises. \<open>place g k pid tok\<close> is the
  answer to the \<open>k\<close>-th details call of the run, for the place \<open>pid\<close> and the page
  token \<open>tok\<close> (\<open>None\<close>: the call without \<^verbatim>\<open>page_token\<close>).
\<close>

record gmaps_client =
  geocode :: "string \<Rightarrow> string + candidate list"
  places_nearby :: "rat \<times> rat \<Rightarrow> nat \<Rightarrow> string \<Rightarrow> string \<Rightarrow> string + places_response"
  place :: "nat \<Rightarrow> string \<Rightarrow> string option \<Rightarrow> string + details_response"

text \<open>\<^verbatim>\<open>d[key]\<close> on a missing key: \<^verbatim>\<open>str(KeyError(key))\<close> is the key in quotes.\<close>

definition KeyError :: "string \<Rightarrow> exn" where
  "KeyError key = Exception (CHR 0x27 # key @ [CHR 0x27])"

text \<open>\<^verbatim>\<open>d.get(key, default)\<close>.\<close>

fun get_default :: "'a option \<Rightarrow> 'a \<Rightarrow> 'a" where
  "get_default None d = d"
| "get_default (Some v) d = v"

text \<open>Lines 68 and 69: the coordinates of one candidate.\<close>

definition coordinates :: "candidate \<Rightarrow> exn + rat \<times> rat" where
  "coordinates c =
     (case geometry c of
        None \<Rightarrow> Inl (KeyError ''geometry'')
      | Some g \<Rightarrow>
          (case location g of
             None \<Rightarrow> Inl (KeyError ''location'')
           | Some l \<Rightarrow>
               (case lat l of
                  None \<Rightarrow> Inl (KeyError ''lat'')
                | Some lat_v \<Rightarrow>
                    (case lng l of
                       None \<Rightarrow> Inl (KeyError ''lng'')
                     | Some lng_v \<Rightarrow> Inr (lat_v, lng_v)))))"

text \<open>
  Lines 63 to 70. The text \<^verbatim>\<open>f"{lat},{lng}"\<close> is kept as the pair it renders.
\<close>

definition resolve_location :: "gmaps_client \<Rightarrow> string \<Rightarrow> event list \<times> (exn + rat \<times> rat)" where
  "resolve_location gmaps location_input =
     (case geocode gmaps location_input of
        Inl msg \<Rightarrow> ([CallGeocode location_input], Inl (Exception msg))
      | Inr geocode_result \<Rightarrow>
          (case geocode_result of
             [] \<Rightarrow> ([CallGeocode location_input, Print ''Location not found.''], Inl (SystemExit 1))
           | c0 # others \<Rightarrow> ([CallGeocode location_input], coordinates c0)))"

text \<open>The rows of \<^verbatim>\<open>business_data\<close> and of \<^verbatim>\<open>reviews_data\<close>, one field per key.\<close>

record business_row =
  Business :: string
  Rating :: "rat option"
  Reviews_Count :: int
  Address :: string

record review_row = business_row +
  Review :: string

text \<open>Lines 91 to 101: the row of \<^verbatim>\<open>business_data\<close> for one place.\<close>

definition business_entry :: "place_doc \<Rightarrow> business_row" where
  "business_entry p =
     \<lparr>Business = get_default (name p) ''N/A'', Rating = rating p,
      Reviews_Count = get_default (user_ratings_total p) 0,
      Address = get_default (vicinity p) ''N/A''\<rparr>"

text \<open>Lines 113 to 119: the row of \<^verbatim>\<open>reviews_data\<close> for one review of a place.\<close>

definition review_entry :: "string \<Rightarrow> string \<Rightarrow> int \<Rightarrow> review_doc \<Rightarrow> review_row" where
  "review_entry nm address reviews_count review =
     \<lparr>Business = nm, Rating = r_rating review, Reviews_Count = reviews_count,
      Address = address, Review = get_default (r_text review) []\<rparr>"

text \<open>Line 111: \<^verbatim>\<open>details.get("result", {}).get("reviews", [])\<close>.\<close>

definition page_reviews :: "details_response \<Rightarrow> review_doc list" where
  "page_reviews details =
     (case result details of None \<Rightarrow> [] | Some r \<Rightarrow> get_default (reviews r) [])"

text \<open>
  The loop of lines 105 to 124 for one place. It ends only when an answer has no token
  (or a call raises), so it is a partial function: \<open>None\<close> is the run that never leaves
  the loop. The arguments after the place are the loop's state: the number of details
  calls made so far, \<^verbatim>\<open>next_page_token\<close>, the events so far and \<^verbatim>\<open>reviews_data\<close>.
\<close>

partial_function (option) fetch_reviews ::
  "gmaps_client \<Rightarrow> string \<Rightarrow> string \<Rightarrow> string \<Rightarrow> int \<Rightarrow> nat \<Rightarrow> string option \<Rightarrow> event list
     \<Rightarrow> review_row list \<Rightarrow> (event list \<times> (exn + review_row list) \<times> nat) option" where
  "fetch_reviews gmaps pid nm address reviews_count k token tr reviews_data =
     (let page_token = (if truthy token then token else None) in
      case place gmaps k pid page_token of
        Inl msg \<Rightarrow> Some (tr @ [CallPlace pid page_token], Inl (Exception msg), Suc k)
      | Inr details \<Rightarrow>
          (let reviews_data' = reviews_data @ map (review_entry nm address reviews_count) (page_reviews details)
           in if truthy (next_page_token details) then
                fetch_reviews gmaps pid nm address reviews_count (Suc k) (next_page_token details)
                  (tr @ [CallPlace pid page_token, Sleep 2]) reviews_data'
              else Some (tr @ [CallPlace pid page_token], Inr reviews_data', Suc k)))"

declare fetch_reviews.simps [code]

text \<open>The loop \<^verbatim>\<open>for place in results\<close> of lines 89 to 124.\<close>

fun places_loop ::
  "gmaps_client \<Rightarrow> nat \<Rightarrow> place_doc list \<Rightarrow> business_row list \<Rightarrow> review_row list
     \<Rightarrow> (event list \<times> (exn + business_row list \<times> review_row list) \<times> nat) option" where
  "places_loop gmaps k [] business_data reviews_data = Some ([], Inr (business_data, reviews_data), k)"
| "places_loop gmaps k (p # ps) business_data reviews_data =
     (case place_id p of
        None \<Rightarrow> Some ([], Inl (KeyError ''place_id''), k)
      | Some pid \<Rightarrow>
          (let nm = get_default (name p) ''N/A'';
               address = get_default (vicinity p) ''N/A'';
               reviews_count = get_default (user_ratings_total p) 0;
               business_data' = business_data @ [business_entry p]
           in case fetch_reviews gmaps pid nm address reviews_count k None [] reviews_data of
                None \<Rightarrow> None
              | Some (tr, Inl e, k') \<Rightarrow> Some (tr, Inl e, k')
              | Some (tr, Inr reviews_data', k') \<Rightarrow>
                  (case places_loop gmaps k' ps business_data' reviews_data' of
                     None \<Rightarrow> None
                   | Some (tr', r, k'') \<Rightarrow> Some (tr @ tr', r, k''))))"

text \<open>Lines 63 to 124: everything the script collects from the maps service.\<close>

definition collect ::
  "gmaps_client \<Rightarrow> string \<Rightarrow> string \<Rightarrow> (event list \<times> (exn + business_row list \<times> review_row list)) option" where
  "collect gmaps location_input business_type =
     (case resolve_location gmaps location_input of
        (tr, Inl e) \<Rightarrow> Some (tr, Inl e)
      | (tr, Inr latlng) \<Rightarrow>
          (let tr1 = tr @ [CallPlacesNearby latlng 2000 business_type business_type] in
           case places_nearby gmaps latlng 2000 business_type business_type of
             Inl msg \<Rightarrow> Some (tr1, Inl (Exception msg))
           | Inr places_result \<Rightarrow>
               (case get_default (results places_result) [] of
                  [] \<Rightarrow>
                    Some (tr1 @ [Print (''No places found for '' @ CHR 0x27 # business_type @ CHR 0x27 # '' near ''
                                   @ CHR 0x27 # location_input @ CHR 0x27 # ''.'')],
                          Inl (SystemExit 1))
                | p # ps \<Rightarrow>
                    (case places_loop gmaps 0 (p # ps) [] [] of
                       None \<Rightarrow> None
                     | Some (tr2, r, k) \<Rightarrow> Some (tr1 @ tr2, r)))))"

section \<open>Saving and plotting the business table\<close>

text \<open>The rows of \<^verbatim>\<open>aspect_results\<close>.\<close>

record aspect_row =
  a_Business :: string
  Aspect :: string
  Sentiment :: json

text \<open>
  The pandas and matplotlib steps are library calls: each may raise, and the world says
  whether it does (\<open>Some msg\<close>). \<open>to_csv\<close> is \<^verbatim>\<open>DataFrame.to_csv\<close>, \<open>scatter_plot\<close>
  the plotting of lines 134 to 142, \<open>summarize\<close> the pandas steps of lines 169 to 174
  and \<open>bar_plot\<close> the plot of lines 179 to 183 for one business.
\<close>

record library =
  to_csv :: "string \<Rightarrow> data_frame \<Rightarrow> string option"
  scatter_plot :: "data_frame \<Rightarrow> string option"
  summarize :: "aspect_row list \<Rightarrow> string option"
  bar_plot :: "string \<Rightarrow> string option"

text \<open>
  \<^verbatim>\<open>pd.DataFrame(business_data)\<close>: the columns are the keys of the dictionaries, in the
  order they were written, and there is one row per dictionary. An empty list gives a
  table with no column.
\<close>

definition cells :: "business_row \<Rightarrow> cell list" where
  "cells b = [CStr (Business b),
              (case Rating b of None \<Rightarrow> CNone | Some x \<Rightarrow> CFloat x),
              CInt (Reviews_Count b),
              CStr (Address b)]"

definition DataFrame :: "business_row list \<Rightarrow> data_frame" where
  "DataFrame business_data =
     \<lparr>columns = (if business_data = [] then [] else [''Business'', ''Rating'', ''Reviews_Count'', ''Address'']),
      rows = map cells business_data\<rparr>"

text \<open>
  Line 137 adds 0.02 to the rating of every row. pandas keeps a column whose values are
  all \<^verbatim>\<open>None\<close> as it is, so the addition raises a \<^verbatim>\<open>TypeError\<close> when no place has a
  rating; as soon as one place has a rating the column is numeric, an absent rating is
  not-a-number there and the addition goes through.
\<close>

definition rating_TypeError :: string where
  "rating_TypeError =
     ''unsupported operand type(s) for +: '' @ CHR 0x27 # ''NoneType'' @ CHR 0x27 # '' and ''
       @ CHR 0x27 # ''float'' @ [CHR 0x27]"

text \<open>
  Lines 126 to 142. \<open>WriteCsv f d\<close> is the file \<open>f\<close> written with the header
  \<open>columns d\<close> and one line per element of \<open>rows d\<close> (\<^verbatim>\<open>index=False\<close>: no other column).
  \<open>scatter_plot\<close> says whether a call of the plotting library raises; when none does,
  the script's own addition of line 137 still raises if every rating is absent, and the
  plot is never shown.
\<close>

definition save_competitor_data :: "library \<Rightarrow> business_row list \<Rightarrow> event list \<times> (exn + unit)" where
  "save_competitor_data lib business_data =
     (let df_business = DataFrame business_data in
      case to_csv lib ''competitor_data.csv'' df_business of
        Some msg \<Rightarrow> ([], Inl (Exception msg))
      | None \<Rightarrow>
          (let tr = [WriteCsv ''competitor_data.csv'' df_business,
                     Print (CHR 0x0A # ''--- Competitor Data ---''),
                     PrintFrame df_business,
                     Print ([CHR 0x0A, CHR 0xE2, CHR 0x9C, CHR 0x85] @ '' Data saved to competitor_data.csv'')]
           in case scatter_plot lib df_business of
                Some msg \<Rightarrow> (tr, Inl (Exception msg))
              | None \<Rightarrow>
                  if business_data \<noteq> [] \<and> list_all (\<lambda>b. Rating b = None) business_data
                  then (tr, Inl (Exception rating_TypeError))
                  else (tr @ [ShowScatter df_business], Inr ())))"

section \<open>Aspect-based sentiment analysis\<close>

text \<open>\<^verbatim>\<open>Series.unique()\<close>: the distinct values, in the order of their first occurrence.\<close>

definition unique :: "'a list \<Rightarrow> 'a list" where
  "unique xs = rev (remdups (rev xs))"

fun type_name :: "json \<Rightarrow> string" where
  "type_name JNull = ''NoneType''"
| "type_name (JBool b) = ''bool''"
| "type_name (JInt i) = ''int''"
| "type_name (JFloat x) = ''float''"
| "type_name (JStr s) = ''str''"
| "type_name (JArr xs) = ''list''"
| "type_name (JObj kvs) = ''dict''"

text \<open>\<^verbatim>\<open>v.items()\<close>: only a dictionary has it.\<close>

fun items :: "json \<Rightarrow> exn + (string \<times> json) list" where
  "items (JObj kvs) = Inr kvs"
| "items v =
     Inl (Exception (CHR 0x27 # type_name v @ CHR 0x27 # '' object has no attribute '' @ CHR 0x27 # ''items'' @ [CHR 0x27]))"

text \<open>Lines 159 to 165, for one business.\<close>

fun aspects_loop :: "string \<Rightarrow> json list \<Rightarrow> aspect_row list \<Rightarrow> exn + aspect_row list" where
  "aspects_loop business [] aspect_results = Inr aspect_results"
| "aspects_loop business (aspects_sentiments # rest) aspect_results =
     (case items aspects_sentiments of
        Inl e \<Rightarrow> Inl e
      | Inr kvs \<Rightarrow>
          aspects_loop business rest
            (aspect_results @
             map (\<lambda>(aspect, sentiment). \<lparr>a_Business = business, Aspect = aspect, Sentiment = sentiment\<rparr>) kvs))"

text \<open>
  Lines 153 to 165: the loop over the businesses of \<^verbatim>\<open>df_reviews\<close>. The extraction is
  called with its default of 3 retries.
\<close>

fun business_loop ::
  "extractor \<Rightarrow> nat \<Rightarrow> review_row list \<Rightarrow> string list \<Rightarrow> aspect_row list
     \<Rightarrow> event list \<times> (exn + aspect_row list) \<times> nat" where
  "business_loop client k df_reviews [] aspect_results = ([], Inr aspect_results, k)"
| "business_loop client k df_reviews (business # rest) aspect_results =
     (let business_reviews = map Review (filter (\<lambda>r. Business r = business) df_reviews);
          tr0 = [Print (CHR 0x0A # ''Processing reviews for '' @ CHR 0x27 # business @ CHR 0x27 # ''... (''
                        @ str_nat (length business_reviews) @ '' reviews)'')]
      in case analyze_reviews_batch client k business_reviews 3 of
           (tr, Inl e, k') \<Rightarrow> (tr0 @ tr, Inl e, k')
         | (tr, Inr batch_aspects, k') \<Rightarrow>
             (case aspects_loop business batch_aspects aspect_results of
                Inl e \<Rightarrow> (tr0 @ tr, Inl e, k')
              | Inr aspect_results' \<Rightarrow>
                  (case business_loop client k' df_reviews rest aspect_results' of
                     (tr', r, k'') \<Rightarrow> (tr0 @ tr @ tr', r, k''))))"

text \<open>
  Line 170: \<^verbatim>\<open>groupby(["Business", "Aspect", "Sentiment"]).size().unstack(fill_value=0)\<close>.
  A row whose sentiment is \<^verbatim>\<open>None\<close> is in no group (pandas drops missing keys). The
  table has one row per (business, aspect) pair that is left and one column per label
  that is left; the cell is the number of rows of \<^verbatim>\<open>df_aspect\<close> with that pair and
  that label. The order in which pandas lists the rows and the columns is not modelled.
\<close>

definition recorded :: "aspect_row list \<Rightarrow> aspect_row list" where
  "recorded aspect_results = filter (\<lambda>r. Sentiment r \<noteq> JNull) aspect_results"

definition pair_of :: "aspect_row \<Rightarrow> string \<times> string" where
  "pair_of r = (a_Business r, Aspect r)"

definition group_size :: "aspect_row list \<Rightarrow> string \<times> string \<Rightarrow> json \<Rightarrow> nat" where
  "group_size aspect_results key label =
     length (filter (\<lambda>r. pair_of r = key \<and> Sentiment r = label) (recorded aspect_results))"

definition aspect_summary :: "aspect_row list \<Rightarrow> crosstab" where
  "aspect_summary aspect_results =
     (let idx = remdups (map pair_of (recorded aspect_results));
          cols = remdups (map Sentiment (recorded aspect_results))
      in \<lparr>ct_index = idx, ct_columns = cols,
          ct_values = map (\<lambda>key. map (\<lambda>label. of_nat (group_size aspect_results key label)) cols) idx\<rparr>)"

text \<open>Line 171: every row divided by its sum, times 100.\<close>

definition aspect_summary_percent :: "aspect_row list \<Rightarrow> crosstab" where
  "aspect_summary_percent aspect_results =
     (let t = aspect_summary aspect_results
      in t\<lparr>ct_values := map (\<lambda>row. map (\<lambda>c. c / sum_list row * 100) row) (ct_values t)\<rparr>)"

text \<open>The cell of a table at a row key and a column label, when both are there.\<close>

definition ct_row :: "crosstab \<Rightarrow> string \<times> string \<Rightarrow> rat list option" where
  "ct_row t key = map_of (zip (ct_index t) (ct_values t)) key"

definition ct_cell :: "crosstab \<Rightarrow> string \<times> string \<Rightarrow> json \<Rightarrow> rat option" where
  "ct_cell t key label =
     (case ct_row t key of None \<Rightarrow> None | Some row \<Rightarrow> map_of (zip (ct_columns t) row) label)"

text \<open>Lines 177 to 183: one stacked bar plot per business that has a row in the table.\<close>

fun bars_loop :: "library \<Rightarrow> crosstab \<Rightarrow> string list \<Rightarrow> event list \<times> (exn + unit)" where
  "bars_loop lib t [] = ([], Inr ())"
| "bars_loop lib t (business # rest) =
     (if business \<in> fst ` set (ct_index t) then
        (case bar_plot lib business of
           Some msg \<Rightarrow> ([], Inl (Exception msg))
         | None \<Rightarrow> (case bars_loop lib t rest of (tr, r) \<Rightarrow> (ShowBar business # tr, r)))
      else bars_loop lib t rest)"

text \<open>Lines 168 to 185.\<close>

definition aspect_report :: "library \<Rightarrow> review_row list \<Rightarrow> aspect_row list \<Rightarrow> event list \<times> (exn + unit)" where
  "aspect_report lib df_reviews aspect_results =
     (if aspect_results \<noteq> [] then
        (case summarize lib aspect_results of
           Some msg \<Rightarrow> ([], Inl (Exception msg))
         | None \<Rightarrow>
             (case bars_loop lib (aspect_summary_percent aspect_results) (unique (map Business df_reviews)) of
                (tr, r) \<Rightarrow>
                  ([Print (CHR 0x0A # ''--- Aspect-Based Sentiment (%) ---''),
                    PrintSummary (aspect_summary_percent aspect_results)] @ tr, r)))
      else ([Print ''No aspect sentiment detected.''], Inr ()))"

text \<open>Lines 144 to 185.\<close>

definition sentiment_stage :: "extractor \<Rightarrow> library \<Rightarrow> review_row list \<Rightarrow> event list \<times> (exn + unit)" where
  "sentiment_stage client lib reviews_data =
     (if reviews_data = [] then
        ([Print ''No reviews found for these businesses.''], Inl (SystemExit 1))
      else
        (let tr0 = [Print (CHR 0x0A # ''Running Aspect-Based Sentiment Analysis using Gemini API...'')]
         in case business_loop client 0 reviews_data (unique (map Business reviews_data)) [] of
              (tr, Inl e, k) \<Rightarrow> (tr0 @ tr, Inl e)
            | (tr, Inr aspect_results, k) \<Rightarrow>
                (case aspect_report lib reviews_data aspect_results of
                   (tr', r) \<Rightarrow> (tr0 @ tr @ tr', r))))"

section \<open>The whole run\<close>

text \<open>The body of the \<^verbatim>\<open>try\<close> of lines 61 to 185.\<close>

definition main_logic ::
  "gmaps_client \<Rightarrow> extractor \<Rightarrow> library \<Rightarrow> string \<Rightarrow> string \<Rightarrow> (event list \<times> (exn + unit)) option" where
  "main_logic gmaps client lib location_input business_type =
     (case collect gmaps location_input business_type of
        None \<Rightarrow> None
      | Some (tr, Inl e) \<Rightarrow> Some (tr, Inl e)
      | Some (tr, Inr (business_data, reviews_data)) \<Rightarrow>
          (case save_competitor_data lib business_data of
             (tr', Inl e) \<Rightarrow> Some (tr @ tr', Inl e)
           | (tr', Inr u) \<Rightarrow>
               (case sentiment_stage client lib reviews_data of
                  (tr'', r) \<Rightarrow> Some (tr @ tr' @ tr'', r))))"

text \<open>
  The world of one run: the two environment variables, what the two client constructors
  do with their key (\<open>Inl msg\<close>: they raise), what each \<^verbatim>\<open>input()\<close> reads (\<open>Inl msg\<close>: it
  raises, as at the end of the input), \<^verbatim>\<open>json.loads\<close> and the library steps.
\<close>

record world =
  GOOGLE_MAPS_API_KEY :: "string option"
  GEMINI_API_KEY :: "string option"
  googlemaps_Client :: "string \<Rightarrow> string + gmaps_client"
  genai_Client :: "string \<Rightarrow> string + (nat \<Rightarrow> string \<Rightarrow> string + string option)"
  stdin :: "nat \<Rightarrow> string + string"
  loads :: "string \<Rightarrow> string + json"
  lib :: library

text \<open>
  How the process ends: \<^verbatim>\<open>sys.exit(n)\<close>, an exception nobody caught (the interpreter
  prints it and exits with status 1), or the end of the script (status 0).
\<close>

datatype ending = Exit nat | Uncaught string | Completed

fun exit_status :: "ending \<Rightarrow> nat" where
  "exit_status (Exit n) = n"
| "exit_status (Uncaught msg) = 1"
| "exit_status Completed = 0"

record outcome =
  trace :: "event list"
  ending :: ending

text \<open>
  Lines 187 and 188 around the body: \<^verbatim>\<open>except Exception\<close> prints the message and the
  script ends; \<^verbatim>\<open>SystemExit\<close> is not caught.
\<close>

definition guarded :: "event list \<Rightarrow> (event list \<times> (exn + unit)) option \<Rightarrow> outcome option" where
  "guarded tr0 body =
     (case body of
        None \<Rightarrow> None
      | Some (tr, Inl (SystemExit n)) \<Rightarrow> Some \<lparr>trace = tr0 @ tr, ending = Exit n\<rparr>
      | Some (tr, Inl (Exception msg)) \<Rightarrow>
          Some \<lparr>trace = tr0 @ tr @ [Print (''An unexpected error occurred: '' @ msg)], ending = Completed\<rparr>
      | Some (tr, Inr u) \<Rightarrow> Some \<lparr>trace = tr0 @ tr, ending = Completed\<rparr>)"

text \<open>
  Lines 11 to 23, before the \<^verbatim>\<open>try\<close>: the credentials check, the two clients and the
  two inputs. Nothing here is caught: what raises ends the process. The result is the
  events and either the ending or what the body needs (the maps client, the extractor,
  \<^verbatim>\<open>location_input\<close> and \<^verbatim>\<open>business_type\<close>).
\<close>

definition startup :: "world \<Rightarrow> event list \<times> (ending + gmaps_client \<times> extractor \<times> string \<times> string)" where
  "startup w =
     (if \<not> truthy (GOOGLE_MAPS_API_KEY w) \<or> \<not> truthy (GEMINI_API_KEY w) then
        ([Print ''Error: Please set GOOGLE_MAPS_API_KEY and GEMINI_API_KEY in environment variables.''],
         Inl (Exit 1))
      else
        (case googlemaps_Client w (get_default (GOOGLE_MAPS_API_KEY w) []) of
           Inl msg \<Rightarrow> ([], Inl (Uncaught msg))
         | Inr gmaps \<Rightarrow>
             (case genai_Client w (get_default (GEMINI_API_KEY w) []) of
                Inl msg \<Rightarrow> ([], Inl (Uncaught msg))
              | Inr gen \<Rightarrow>
                  (case stdin w 0 of
                     Inl msg \<Rightarrow> ([Input ''Enter city/location (e.g., Mumbai CST): ''], Inl (Uncaught msg))
                   | Inr line1 \<Rightarrow>
                       (case stdin w 1 of
                          Inl msg \<Rightarrow>
                            ([Input ''Enter city/location (e.g., Mumbai CST): '',
                              Input ''Enter type of business (e.g., restaurant, electronics_store): ''],
                             Inl (Uncaught msg))
                        | Inr line2 \<Rightarrow>
                            ([Input ''Enter city/location (e.g., Mumbai CST): '',
                              Input ''Enter type of business (e.g., restaurant, electronics_store): ''],
                             Inr (gmaps, \<lparr>generate_content = gen, json_loads = loads w\<rparr>,
                                  strip line1, lower (strip line2))))))))"

text \<open>The whole script. \<open>None\<close>: the run never ends.\<close>

definition main :: "world \<Rightarrow> outcome option" where
  "main w =
     (case startup w of
        (tr0, Inl e) \<Rightarrow> Some \<lparr>trace = tr0, ending = e\<rparr>
      | (tr0, Inr (gmaps, client, location_input, business_type)) \<Rightarrow>
          guarded tr0 (main_logic gmaps client (lib w) location_input business_type))"

section \<open>Descriptions of runs and example worlds\<close>

text \<open>
  Predicates that describe runs, used to state the properties, and concrete services and
  tables on which the properties are run.
\<close>

definition sample_reply :: string where
  "sample_reply = ''{'' @ [CHR 0x22] @ ''food'' @ [CHR 0x22] @ '': '' @ [CHR 0x22] @ ''positive'' @ [CHR 0x22] @ ''}''"

definition failing_client :: extractor where
  "failing_client =
     \<lparr>generate_content = (\<lambda>k p. if k = 0 then Inl ''503 unavailable''
                                else if k = 1 then Inr (Some ''   '')
                                else if k = 2 then Inr (Some ''not json'')
                                else Inr (Some sample_reply)),
      json_loads = (\<lambda>s. if s = sample_reply then Inr (JObj [(''food'', JStr ''positive'')])
                         else Inl ''Expecting value'')\<rparr>"

definition sample_aspects :: "aspect_row list" where
  "sample_aspects =
     [\<lparr>a_Business = ''Cafe A'', Aspect = ''service'', Sentiment = JStr ''positive''\<rparr>,
      \<lparr>a_Business = ''Cafe A'', Aspect = ''service'', Sentiment = JStr ''negative''\<rparr>,
      \<lparr>a_Business = ''Cafe A'', Aspect = ''service'', Sentiment = JStr ''positive''\<rparr>,
      \<lparr>a_Business = ''Cafe A'', Aspect = ''price'', Sentiment = JStr ''neutral''\<rparr>]"

text \<open>
  A description of a finite run of the loop of lines 105 to 124, to state what the loop
  does: \<open>page_run g pid k token ds\<close> says that \<open>ds\<close> are the answers to the successive
  details calls from the \<open>k\<close>-th on, the first made with \<open>token\<close> and each later one
  with the token of the answer before it; \<open>page_events\<close> lists the calls and the waits
  of such a run.
\<close>

fun page_run :: "gmaps_client \<Rightarrow> string \<Rightarrow> nat \<Rightarrow> string option \<Rightarrow> details_response list \<Rightarrow> bool" where
  "page_run g pid k token [] = True"
| "page_run g pid k token (d # ds) =
     (place g k pid (if truthy token then token else None) = Inr d
      \<and> page_run g pid (Suc k) (next_page_token d) ds)"

fun page_events :: "string \<Rightarrow> string option \<Rightarrow> details_response list \<Rightarrow> event list" where
  "page_events pid token [] = []"
| "page_events pid token [d] = [CallPlace pid (if truthy token then token else None)]"
| "page_events pid token (d # d' # ds) =
     CallPlace pid (if truthy token then token else None) # Sleep 2
       # page_events pid (next_page_token d) (d' # ds)"

definition page_rows :: "string \<Rightarrow> string \<Rightarrow> int \<Rightarrow> details_response list \<Rightarrow> review_row list" where
  "page_rows nm address reviews_count ds =
     concat (map (\<lambda>d. map (review_entry nm address reviews_count) (page_reviews d)) ds)"

definition always_token :: "gmaps_client \<Rightarrow> string \<Rightarrow> bool" where
  "always_token g pid = (\<forall>k token. \<exists>d. place g k pid token = Inr d \<and> truthy (next_page_token d))"

text \<open>
  A maps service for one place without any review, whose first details answer still
  carries a token and whose second does not; and one with two pages of reviews.
\<close>

definition empty_page :: "string option \<Rightarrow> details_response" where
  "empty_page token = \<lparr>result = Some \<lparr>reviews = Some []\<rparr>, next_page_token = token\<rparr>"

definition quiet_place :: place_doc where
  "quiet_place = \<lparr>place_id = Some ''p1'', name = Some ''Cafe A'', vicinity = Some ''1 Main St'',
                   rating = None, user_ratings_total = Some 0\<rparr>"

definition quiet_gmaps :: gmaps_client where
  "quiet_gmaps =
     \<lparr>geocode = (\<lambda>s. Inr [\<lparr>geometry = Some \<lparr>location = Some \<lparr>lat = Some 19, lng = Some 73\<rparr>\<rparr>\<rparr>]),
      places_nearby = (\<lambda>latlng radius t kw. Inr \<lparr>results = Some [quiet_place]\<rparr>),
      place = (\<lambda>k pid token. if token = None then Inr (empty_page (Some ''tok1''))
                               else Inr (empty_page None))\<rparr>"

definition review1 :: review_doc where
  "review1 = \<lparr>r_text = Some ''great food'', r_rating = Some 5\<rparr>"

definition review2 :: review_doc where
  "review2 = \<lparr>r_text = Some ''slow service'', r_rating = Some 2\<rparr>"

definition page1 :: details_response where
  "page1 = \<lparr>result = Some \<lparr>reviews = Some [review1]\<rparr>, next_page_token = Some ''tok1''\<rparr>"

definition page2 :: details_response where
  "page2 = \<lparr>result = Some \<lparr>reviews = Some [review2]\<rparr>, next_page_token = None\<rparr>"

definition busy_place :: place_doc where
  "busy_place = \<lparr>place_id = Some ''p2'', name = Some ''Cafe B'', vicinity = Some ''2 Main St'',
                  rating = Some (9 / 2), user_ratings_total = Some 2\<rparr>"

definition busy_gmaps :: gmaps_client where
  "busy_gmaps =
     \<lparr>geocode = (\<lambda>s. Inr [\<lparr>geometry = Some \<lparr>location = Some \<lparr>lat = Some 19, lng = Some 73\<rparr>\<rparr>\<rparr>,
                          \<lparr>geometry = Some \<lparr>location = Some \<lparr>lat = Some 0, lng = Some 0\<rparr>\<rparr>\<rparr>]),
      places_nearby = (\<lambda>latlng radius t kw. Inr \<lparr>results = Some [busy_place]\<rparr>),
      place = (\<lambda>k pid token. if token = None then Inr page1 else Inr page2)\<rparr>"

text \<open>A rated place without any review, whose one details answer carries no token.\<close>

definition rated_place :: place_doc where
  "rated_place = \<lparr>place_id = Some ''p3'', name = Some ''Cafe C'', vicinity = Some ''3 Main St'',
                   rating = Some 4, user_ratings_total = Some 7\<rparr>"

definition rated_gmaps :: gmaps_client where
  "rated_gmaps =
     \<lparr>geocode = (\<lambda>s. Inr [\<lparr>geometry = Some \<lparr>location = Some \<lparr>lat = Some 19, lng = Some 73\<rparr>\<rparr>\<rparr>]),
      places_nearby = (\<lambda>latlng radius t kw. Inr \<lparr>results = Some [rated_place]\<rparr>),
      place = (\<lambda>k pid token. Inr (empty_page None))\<rparr>"

definition nowhere_gmaps :: gmaps_client where
  "nowhere_gmaps = quiet_gmaps\<lparr>geocode := (\<lambda>s. Inr [])\<rparr>"

text \<open>
  Worlds: both keys set, both clients built, the two lines typed, no library step that
  raises; the maps client and the completion answers are the arguments.
\<close>

definition calm_lib :: library where
  "calm_lib = \<lparr>to_csv = (\<lambda>f d. None), scatter_plot = (\<lambda>d. None),
                summarize = (\<lambda>rs. None), bar_plot = (\<lambda>b. None)\<rparr>"

definition world_of :: "gmaps_client \<Rightarrow> extractor \<Rightarrow> world" where
  "world_of g c =
     \<lparr>GOOGLE_MAPS_API_KEY = Some ''maps-key'', GEMINI_API_KEY = Some ''gemini-key'',
      googlemaps_Client = (\<lambda>key. Inr g),
      genai_Client = (\<lambda>key. Inr (generate_content c)),
      stdin = (\<lambda>n. if n = 0 then Inr '' Mumbai CST '' else Inr ''Cafe''),
      loads = json_loads c,
      lib = calm_lib\<rparr>"

definition raising_client :: extractor where
  "raising_client = \<lparr>generate_content = (\<lambda>k p. Inl ''503 unavailable''),
                      json_loads = (\<lambda>s. Inl ''Expecting value'')\<rparr>"

text \<open>A world whose standard input is at its end when the first line is asked for.\<close>

definition eof_world :: world where
  "eof_world = (world_of busy_gmaps failing_client)\<lparr>stdin := (\<lambda>n. Inl ''EOF when reading a line'')\<rparr>"

text \<open>Events of the collecting stage: no file, no plot, no completion call.\<close>

definition early :: "event \<Rightarrow> bool" where
  "early e = (\<not> is_WriteCsv e \<and> \<not> is_ShowScatter e \<and> \<not> is_CallGenerate e)"

text \<open>Events of the stages after the file and the scatter plot.\<close>

definition late :: "event \<Rightarrow> bool" where
  "late e = (\<not> is_WriteCsv e \<and> \<not> is_ShowScatter e)"

text \<open>
  Two worlds that may differ only in what the extraction and the aspect report meet: the
  completion answers, \<^verbatim>\<open>json.loads\<close>, and the library steps of lines 169 to 183.
\<close>

definition same_before_extraction :: "world \<Rightarrow> world \<Rightarrow> bool" where
  "same_before_extraction w w' =
     (GOOGLE_MAPS_API_KEY w' = GOOGLE_MAPS_API_KEY w \<and> GEMINI_API_KEY w' = GEMINI_API_KEY w
      \<and> googlemaps_Client w' = googlemaps_Client w \<and> stdin w' = stdin w
      \<and> isl (genai_Client w' (get_default (GEMINI_API_KEY w) [])) = isl (genai_Client w (get_default (GEMINI_API_KEY w) []))
      \<and> to_csv (lib w') = to_csv (lib w) \<and> scatter_plot (lib w') = scatter_plot (lib w))"


section \<open>Auxiliary lemmas\<close>

lemma try_body_calls:
  "try_body client k r a = (tr, res) \<Longrightarrow> length (filter is_CallGenerate tr) = 1"
  by (auto simp: try_body_def Let_def split: sum.splits option.splits if_splits)

lemma try_body_no_exit:
  "try_body client k r a \<noteq> (tr, Inl (SystemExit c))"
  by (auto simp: try_body_def Let_def split: sum.splits option.splits if_splits)

lemma try_body_fails:
  "attempt_fails client k r \<Longrightarrow> try_body client k r a \<noteq> (tr, Inr (Some v))"
  by (auto simp: try_body_def attempt_fails_def Let_def split: sum.splits option.splits if_splits)

lemma retry_loop_calls:
  "retry_loop client k r a n = (tr, res, k') \<Longrightarrow>
   k' = k + length (filter is_CallGenerate tr) \<and> k' \<le> k + n"
proof (induction n arbitrary: k a tr res k')
  case 0
  then show ?case by simp
next
  case (Suc n)
  obtain tb rb where tb: "try_body client k r a = (tb, rb)" by (cases "try_body client k r a")
  from try_body_calls[OF tb] have c1: "length (filter is_CallGenerate tb) = 1" .
  obtain t2 r2 k2 where rl: "retry_loop client (Suc k) r (Suc a) n = (t2, r2, k2)"
    by (cases "retry_loop client (Suc k) r (Suc a) n")
  from Suc.IH[OF rl] have ih: "k2 = Suc k + length (filter is_CallGenerate t2)" "k2 \<le> Suc k + n" by auto
  show ?case using Suc.prems tb rl c1 ih
    by (auto split: sum.splits option.splits exn.splits)
qed

lemma retry_loop_Inr:
  "\<exists>v. fst (snd (retry_loop client k r a n)) = Inr v"
proof (induction n arbitrary: k a)
  case 0
  then show ?case by simp
next
  case (Suc n)
  obtain tb rb where tb: "try_body client k r a = (tb, rb)" by (cases "try_body client k r a")
  obtain t2 r2 k2 where rl: "retry_loop client (Suc k) r (Suc a) n = (t2, r2, k2)"
    by (cases "retry_loop client (Suc k) r (Suc a) n")
  from Suc.IH[of "Suc k" "Suc a"] rl obtain v2 where "r2 = Inr v2" by auto
  then show ?case using tb rl try_body_no_exit[of client k r a tb]
    by (auto split: sum.splits option.splits exn.splits)
qed

lemma retry_loop_all_fail:
  "(\<forall>i<n. attempt_fails client (k + i) r) \<Longrightarrow>
   fst (snd (retry_loop client k r a n)) = Inr (JObj []) \<and> snd (snd (retry_loop client k r a n)) = k + n"
proof (induction n arbitrary: k a)
  case 0
  then show ?case by simp
next
  case (Suc n)
  obtain tb rb where tb: "try_body client k r a = (tb, rb)" by (cases "try_body client k r a")
  obtain t2 r2 k2 where rl: "retry_loop client (Suc k) r (Suc a) n = (t2, r2, k2)"
    by (cases "retry_loop client (Suc k) r (Suc a) n")
  have f0: "attempt_fails client k r" using Suc.prems[rule_format, of 0] by simp
  have "\<forall>i<n. attempt_fails client (Suc k + i) r"
    using Suc.prems by (metis Suc_less_eq add_Suc_right add_Suc)
  from Suc.IH[OF this, of "Suc a"] rl have "r2 = Inr (JObj [])" "k2 = Suc k + n" by auto
  then show ?case using tb rl try_body_no_exit[of client k r a tb] try_body_fails[OF f0, of a tb]
    by (auto split: sum.splits option.splits exn.splits)
qed

lemma batch_loop_counter:
  "snd (snd (batch_loop client k rs n acc)) = snd (snd (batch_loop client k rs n acc'))"
proof (induction rs arbitrary: k acc acc')
  case Nil
  then show ?case by simp
next
  case (Cons r rs)
  obtain t1 r1 k1 where rl: "retry_loop client k r 0 n = (t1, r1, k1)"
    by (cases "retry_loop client k r 0 n")
  show ?case
  proof (cases r1)
    case (Inl e)
    then show ?thesis using rl by simp
  next
    case (Inr v)
    from Cons.IH[of k1 "acc @ [v]" "acc' @ [v]"] show ?thesis using rl Inr
      by (auto split: prod.splits)
  qed
qed

lemma batch_loop_Inr:
  "\<exists>vs. fst (snd (batch_loop client k rs n acc)) = Inr (acc @ vs) \<and> length vs = length rs \<and>
     (\<forall>i<length rs. fst (snd (retry_loop client (snd (snd (batch_loop client k (take i rs) n []))) (rs ! i) 0 n))
        = Inr (vs ! i))"
proof (induction rs arbitrary: k acc)
  case Nil
  then show ?case by simp
next
  case (Cons r rs)
  obtain t1 r1 k1 where rl: "retry_loop client k r 0 n = (t1, r1, k1)"
    by (cases "retry_loop client k r 0 n")
  from retry_loop_Inr[of client k r 0 n] rl obtain v where v: "r1 = Inr v" by auto
  from Cons.IH[of k1 "acc @ [v]"] obtain vs where
    vs: "fst (snd (batch_loop client k1 rs n (acc @ [v]))) = Inr ((acc @ [v]) @ vs)" "length vs = length rs"
      "\<forall>i<length rs. fst (snd (retry_loop client (snd (snd (batch_loop client k1 (take i rs) n []))) (rs ! i) 0 n))
        = Inr (vs ! i)" by blast
  have cnt: "\<And>i. snd (snd (batch_loop client k (take (Suc i) (r # rs)) n [])) = snd (snd (batch_loop client k1 (take i rs) n []))"
  proof -
    fix i
    obtain t3 r3 k3 where b3: "batch_loop client k1 (take i rs) n [v] = (t3, r3, k3)"
      by (cases "batch_loop client k1 (take i rs) n [v]")
    have "k3 = snd (snd (batch_loop client k1 (take i rs) n []))"
      using batch_loop_counter[of client k1 "take i rs" n "[v]" "[]"] b3 by simp
    then show "snd (snd (batch_loop client k (take (Suc i) (r # rs)) n [])) = snd (snd (batch_loop client k1 (take i rs) n []))"
      using rl v b3 by simp
  qed
  have "fst (snd (batch_loop client k (r # rs) n acc)) = Inr (acc @ (v # vs))"
    using rl v vs(1) by (auto split: prod.splits)
  moreover have "length (v # vs) = length (r # rs)" using vs(2) by simp
  moreover have "\<forall>i<length (r # rs). fst (snd (retry_loop client (snd (snd (batch_loop client k (take i (r # rs)) n []))) ((r # rs) ! i) 0 n))
        = Inr ((v # vs) ! i)"
  proof (intro allI impI)
    fix i assume "i < length (r # rs)"
    show "fst (snd (retry_loop client (snd (snd (batch_loop client k (take i (r # rs)) n []))) ((r # rs) ! i) 0 n))
        = Inr ((v # vs) ! i)"
    proof (cases i)
      case 0
      then show ?thesis using rl v by simp
    next
      case (Suc j)
      with \<open>i < length (r # rs)\<close> have "j < length rs" by simp
      with vs(3) cnt[of j] Suc show ?thesis by simp
    qed
  qed
  ultimately show ?case by blast
qed

lemma batch_loop_calls:
  "batch_loop client k rs n acc = (tr, res, k') \<Longrightarrow>
   k' = k + length (filter is_CallGenerate tr) \<and> k' \<le> k + n * length rs"
proof (induction rs arbitrary: k acc tr res k')
  case Nil
  then show ?case by simp
next
  case (Cons r rs)
  obtain t1 r1 k1 where rl: "retry_loop client k r 0 n = (t1, r1, k1)"
    by (cases "retry_loop client k r 0 n")
  from retry_loop_Inr[of client k r 0 n] rl obtain v where v: "r1 = Inr v" by auto
  from retry_loop_calls[OF rl] have c1: "k1 = k + length (filter is_CallGenerate t1)" "k1 \<le> k + n" by auto
  obtain t2 r2 k2 where bl: "batch_loop client k1 rs n (acc @ [v]) = (t2, r2, k2)"
    by (cases "batch_loop client k1 rs n (acc @ [v])")
  from Cons.IH[OF bl] have c2: "k2 = k1 + length (filter is_CallGenerate t2)" "k2 \<le> k1 + n * length rs" by auto
  from Cons.prems rl v bl have "tr = t1 @ t2" "k' = k2" by auto
  then show ?case using c1 c2 by simp
qed

lemma all_less_3: "(\<forall>i<(3::nat). P i) = (P 0 \<and> P 1 \<and> P 2)"
proof -
  have "\<And>i::nat. i < 3 \<longleftrightarrow> i = 0 \<or> i = 1 \<or> i = 2" by arith
  then show ?thesis by auto
qed

lemma strip_blank: "strip ''   '' = []"
  by (simp add: strip_def isspace_def)

lemma strip_not_json: "strip ''not json'' = ''not json''"
  by (simp add: strip_def isspace_def)

lemma strip_sample_reply: "strip sample_reply = sample_reply"
  by (simp add: strip_def isspace_def sample_reply_def)

lemma sample_reply_nonempty: "sample_reply \<noteq> []"
  by (simp add: sample_reply_def)

lemma sample_reply_other: "''not json'' \<noteq> sample_reply"
  by (simp add: sample_reply_def)

lemma failing_first3: "k < 3 \<Longrightarrow> attempt_fails failing_client k r"
  by (auto simp: attempt_fails_def failing_client_def strip_blank strip_not_json sample_reply_other)

lemma count_by_label:
  assumes "distinct cols" "Sentiment ` set ys \<subseteq> set cols"
  shows "sum_list (map (\<lambda>l. length (filter (\<lambda>r. P r \<and> Sentiment r = l) ys)) cols) = length (filter P ys)"
  using assms(2)
proof (induction ys)
  case Nil
  then show ?case by simp
next
  case (Cons r ys)
  then have mem: "Sentiment r \<in> set cols" and sub: "Sentiment ` set ys \<subseteq> set cols" by auto
  have split: "\<And>l. length (filter (\<lambda>r. P r \<and> Sentiment r = l) (r # ys))
      = (if Sentiment r = l \<and> P r then 1 else 0) + length (filter (\<lambda>r. P r \<and> Sentiment r = l) ys)"
    by auto
  have "sum_list (map (\<lambda>l. if Sentiment r = l \<and> P r then 1 else 0) cols) = (if P r then (1::nat) else 0)"
  proof -
    have "sum_list (map (\<lambda>l. if Sentiment r = l \<and> P r then 1 else 0) cols)
        = (\<Sum>l\<in>set cols. if Sentiment r = l \<and> P r then (1::nat) else 0)"
      using assms(1) by (simp add: sum_list_distinct_conv_sum_set)
    also have "\<dots> = (\<Sum>l\<in>set cols. if Sentiment r = l then (if P r then 1 else 0) else 0)"
      by (intro sum.cong) auto
    also have "\<dots> = (if P r then 1 else 0)"
      using mem by (simp add: sum.delta)
    finally show ?thesis .
  qed
  then show ?case using Cons.IH[OF sub] by (simp only: split sum_list_addf) auto
qed

lemma row_total:
  "sum_list (map (\<lambda>label. (of_nat (group_size rs key label) :: rat)) (remdups (map Sentiment (recorded rs))))
     = of_nat (length (filter (\<lambda>r. pair_of r = key) (recorded rs)))"
proof -
  have "sum_list (map (\<lambda>l. length (filter (\<lambda>r. pair_of r = key \<and> Sentiment r = l) (recorded rs)))
          (remdups (map Sentiment (recorded rs)))) = length (filter (\<lambda>r. pair_of r = key) (recorded rs))"
    by (rule count_by_label) auto
  then have "(of_nat (sum_list (map (\<lambda>l. length (filter (\<lambda>r. pair_of r = key \<and> Sentiment r = l) (recorded rs)))
          (remdups (map Sentiment (recorded rs))))) :: rat) = of_nat (length (filter (\<lambda>r. pair_of r = key) (recorded rs)))"
    by simp
  then show ?thesis
    by (simp add: group_size_def sum_list_of_nat[symmetric] comp_def)
qed

lemma percent_index: "ct_index (aspect_summary_percent rs) = remdups (map pair_of (recorded rs))"
  by (simp add: aspect_summary_percent_def aspect_summary_def Let_def)

lemma percent_columns: "ct_columns (aspect_summary_percent rs) = remdups (map Sentiment (recorded rs))"
  by (simp add: aspect_summary_percent_def aspect_summary_def Let_def)

lemma percent_row:
  assumes "key \<in> set (map pair_of (recorded rs))"
  shows "ct_row (aspect_summary_percent rs) key =
     Some (map (\<lambda>label. of_nat (group_size rs key label)
                  / of_nat (length (filter (\<lambda>r. pair_of r = key) (recorded rs))) * 100)
            (remdups (map Sentiment (recorded rs))))"
proof -
  let ?idx = "remdups (map pair_of (recorded rs))"
  let ?cols = "remdups (map Sentiment (recorded rs))"
  let ?f = "\<lambda>key. map (\<lambda>c. c / sum_list (map (\<lambda>label. (of_nat (group_size rs key label) :: rat)) ?cols) * 100)
              (map (\<lambda>label. (of_nat (group_size rs key label) :: rat)) ?cols)"
  have vals: "ct_values (aspect_summary_percent rs) = map ?f ?idx"
    by (simp add: aspect_summary_percent_def aspect_summary_def Let_def comp_def)
  have "ct_row (aspect_summary_percent rs) key = map_of (zip ?idx (map ?f ?idx)) key"
    by (simp only: ct_row_def percent_index vals)
  also have "\<dots> = Some (?f key)" using assms by (simp add: map_of_zip_map)
  also have "?f key = map (\<lambda>label. of_nat (group_size rs key label)
                  / of_nat (length (filter (\<lambda>r. pair_of r = key) (recorded rs))) * 100) ?cols"
    by (simp add: row_total comp_def)
  finally show ?thesis .
qed

lemma scaled_sum:
  fixes g :: "'a \<Rightarrow> rat"
  shows "sum_list (map (\<lambda>l. g l / t * 100) cols) = sum_list (map g cols) / t * 100"
proof -
  have e: "(\<lambda>l. g l / t * 100) = (\<lambda>l. g l * (100 / t))" by (rule ext) simp
  show ?thesis using sum_list_mult_const[of g "100 / t" cols] by (simp only: e) simp
qed

lemma percent_cell:
  assumes "key \<in> set (map pair_of (recorded rs))" "label \<in> set (map Sentiment (recorded rs))"
  shows "ct_cell (aspect_summary_percent rs) key label =
     Some (of_nat (group_size rs key label)
             / of_nat (length (filter (\<lambda>r. pair_of r = key) (recorded rs))) * 100)"
proof -
  let ?cols = "remdups (map Sentiment (recorded rs))"
  let ?f = "\<lambda>label. (of_nat (group_size rs key label) :: rat)
              / of_nat (length (filter (\<lambda>r. pair_of r = key) (recorded rs))) * 100"
  have "ct_cell (aspect_summary_percent rs) key label = map_of (zip ?cols (map ?f ?cols)) label"
    by (simp only: ct_cell_def percent_row[OF assms(1)] percent_columns option.case)
  also have "\<dots> = Some (?f label)"
    using assms(2) by (simp only: map_of_zip_map) simp
  finally show ?thesis .
qed

lemma sample_recorded: "recorded sample_aspects = sample_aspects"
  by (simp add: recorded_def sample_aspects_def)

lemma fetch_last:
  "place g k pid (if truthy token then token else None) = Inr d \<Longrightarrow> \<not> truthy (next_page_token d) \<Longrightarrow>
   fetch_reviews g pid nm address rc k token tr acc =
     Some (tr @ [CallPlace pid (if truthy token then token else None)],
           Inr (acc @ map (review_entry nm address rc) (page_reviews d)), Suc k)"
  by (subst fetch_reviews.simps) (simp add: Let_def)

lemma fetch_next:
  "place g k pid (if truthy token then token else None) = Inr d \<Longrightarrow> truthy (next_page_token d) \<Longrightarrow>
   fetch_reviews g pid nm address rc k token tr acc =
     fetch_reviews g pid nm address rc (Suc k) (next_page_token d)
       (tr @ [CallPlace pid (if truthy token then token else None), Sleep 2])
       (acc @ map (review_entry nm address rc) (page_reviews d))"
  by (subst fetch_reviews.simps) (simp add: Let_def)

lemma fetch_finite_run:
  "ds \<noteq> [] \<Longrightarrow> page_run g pid k token ds \<Longrightarrow> \<forall>d \<in> set (butlast ds). truthy (next_page_token d) \<Longrightarrow>
   \<not> truthy (next_page_token (last ds)) \<Longrightarrow>
   fetch_reviews g pid nm address rc k token tr acc =
     Some (tr @ page_events pid token ds, Inr (acc @ page_rows nm address rc ds), k + length ds)"
proof (induction ds arbitrary: k token tr acc)
  case Nil
  then show ?case by simp
next
  case (Cons d ds)
  from Cons.prems(2) have call: "place g k pid (if truthy token then token else None) = Inr d"
    and rest: "page_run g pid (Suc k) (next_page_token d) ds" by simp_all
  show ?case
  proof (cases ds)
    case Nil
    with Cons.prems(4) have "\<not> truthy (next_page_token d)" by simp
    from fetch_last[OF call this] Nil show ?thesis by (simp add: page_rows_def)
  next
    case (Cons d' ds')
    with Cons.prems(3) have t: "truthy (next_page_token d)" by simp
    have ne: "ds \<noteq> []" using Cons by simp
    have bl: "\<forall>d \<in> set (butlast ds). truthy (next_page_token d)" using Cons.prems(3) ne by simp
    have la: "\<not> truthy (next_page_token (last ds))" using Cons.prems(4) ne by simp
    have "fetch_reviews g pid nm address rc k token tr acc =
        fetch_reviews g pid nm address rc (Suc k) (next_page_token d)
          (tr @ [CallPlace pid (if truthy token then token else None), Sleep 2])
          (acc @ map (review_entry nm address rc) (page_reviews d))"
      by (rule fetch_next[OF call t])
    also have "\<dots> = Some ((tr @ [CallPlace pid (if truthy token then token else None), Sleep 2])
                           @ page_events pid (next_page_token d) ds,
                         Inr ((acc @ map (review_entry nm address rc) (page_reviews d)) @ page_rows nm address rc ds),
                         Suc k + length ds)"
      by (rule Cons.IH[OF ne rest bl la])
    finally show ?thesis using Cons by (simp add: page_rows_def)
  qed
qed

lemma fetch_returns_run_aux:
  assumes "fetch_reviews g0 pid0 nm0 address0 rc0 k0 token0 tr0 acc0 = Some y0"
  shows "\<forall>tr' acc' k'. y0 = (tr', Inr acc', k') \<longrightarrow>
     (\<exists>ds. ds \<noteq> [] \<and> page_run g0 pid0 k0 token0 ds \<and> (\<forall>d \<in> set (butlast ds). truthy (next_page_token d))
          \<and> \<not> truthy (next_page_token (last ds)) \<and> k' = k0 + length ds)"
proof (rule fetch_reviews.raw_induct[where P = "\<lambda>g pid nm address rc k token tr acc y.
     \<forall>tr' acc' k'. y = (tr', Inr acc', k') \<longrightarrow>
     (\<exists>ds. ds \<noteq> [] \<and> page_run g pid k token ds \<and> (\<forall>d \<in> set (butlast ds). truthy (next_page_token d))
          \<and> \<not> truthy (next_page_token (last ds)) \<and> k' = k + length ds)", OF _ assms])
  fix f :: "gmaps_client \<Rightarrow> string \<Rightarrow> string \<Rightarrow> string \<Rightarrow> int \<Rightarrow> nat \<Rightarrow> string option \<Rightarrow> event list
     \<Rightarrow> review_row list \<Rightarrow> (event list \<times> (exn + review_row list) \<times> nat) option"
  fix g pid nm address rc k token tr acc y
  assume IH: "\<And>g pid nm address rc k token tr acc y. f g pid nm address rc k token tr acc = Some y \<Longrightarrow>
     \<forall>tr' acc' k'. y = (tr', Inr acc', k') \<longrightarrow>
     (\<exists>ds. ds \<noteq> [] \<and> page_run g pid k token ds \<and> (\<forall>d \<in> set (butlast ds). truthy (next_page_token d))
          \<and> \<not> truthy (next_page_token (last ds)) \<and> k' = k + length ds)"
  assume body: "(let page_token = if truthy token then token else None
      in case place g k pid page_token of
         Inl msg \<Rightarrow> Some (tr @ [CallPlace pid page_token], Inl (Exception msg), Suc k)
         | Inr details \<Rightarrow>
             let reviews_data' = acc @ map (review_entry nm address rc) (page_reviews details)
             in if truthy (next_page_token details)
                then f g pid nm address rc (Suc k) (next_page_token details)
                      (tr @ [CallPlace pid page_token, Sleep 2]) reviews_data'
                else Some (tr @ [CallPlace pid page_token], Inr reviews_data', Suc k)) = Some y"
  show "\<forall>tr' acc' k'. y = (tr', Inr acc', k') \<longrightarrow>
     (\<exists>ds. ds \<noteq> [] \<and> page_run g pid k token ds \<and> (\<forall>d \<in> set (butlast ds). truthy (next_page_token d))
          \<and> \<not> truthy (next_page_token (last ds)) \<and> k' = k + length ds)"
  proof (cases "place g k pid (if truthy token then token else None)")
    case (Inl msg)
    with body show ?thesis by (auto simp: Let_def)
  next
    case (Inr d)
    show ?thesis
    proof (cases "truthy (next_page_token d)")
      case False
      have one: "[d] \<noteq> [] \<and> page_run g pid k token [d] \<and> (\<forall>d \<in> set (butlast [d]). truthy (next_page_token d))
          \<and> \<not> truthy (next_page_token (last [d])) \<and> Suc k = k + length [d]"
        using Inr False by simp
      from body Inr False have "y = (tr @ [CallPlace pid (if truthy token then token else None)],
           Inr (acc @ map (review_entry nm address rc) (page_reviews d)), Suc k)"
        by (simp add: Let_def)
      with one show ?thesis by blast
    next
      case True
      with body Inr have rec: "f g pid nm address rc (Suc k) (next_page_token d)
                  (tr @ [CallPlace pid (if truthy token then token else None), Sleep 2])
                  (acc @ map (review_entry nm address rc) (page_reviews d)) = Some y"
        by (simp add: Let_def)
      show ?thesis
      proof (intro allI impI)
        fix tr' acc' k' assume y: "y = (tr', Inr acc', k')"
        from IH[OF rec] y obtain ds where ds: "ds \<noteq> []" "page_run g pid (Suc k) (next_page_token d) ds"
          "\<forall>d \<in> set (butlast ds). truthy (next_page_token d)" "\<not> truthy (next_page_token (last ds))"
          "k' = Suc k + length ds" by blast
        have "d # ds \<noteq> [] \<and> page_run g pid k token (d # ds) \<and> (\<forall>x \<in> set (butlast (d # ds)). truthy (next_page_token x))
          \<and> \<not> truthy (next_page_token (last (d # ds))) \<and> k' = k + length (d # ds)"
          using ds Inr True by simp
        then show "\<exists>ds. ds \<noteq> [] \<and> page_run g pid k token ds \<and> (\<forall>d \<in> set (butlast ds). truthy (next_page_token d))
          \<and> \<not> truthy (next_page_token (last ds)) \<and> k' = k + length ds" by blast
      qed
    qed
  qed
qed

lemma fetch_never_ends_aux:
  assumes "fetch_reviews g0 pid0 nm0 address0 rc0 k0 token0 tr0 acc0 = Some y0"
  shows "\<not> always_token g0 pid0"
proof (rule fetch_reviews.raw_induct[where P = "\<lambda>g pid nm address rc k token tr acc y. \<not> always_token g pid",
        OF _ assms])
  fix f :: "gmaps_client \<Rightarrow> string \<Rightarrow> string \<Rightarrow> string \<Rightarrow> int \<Rightarrow> nat \<Rightarrow> string option \<Rightarrow> event list
     \<Rightarrow> review_row list \<Rightarrow> (event list \<times> (exn + review_row list) \<times> nat) option"
  fix g pid nm address rc k token tr acc y
  assume IH: "\<And>g pid nm address rc k token tr acc y. f g pid nm address rc k token tr acc = Some y \<Longrightarrow>
     \<not> always_token g pid"
  assume body: "(let page_token = if truthy token then token else None
      in case place g k pid page_token of
         Inl msg \<Rightarrow> Some (tr @ [CallPlace pid page_token], Inl (Exception msg), Suc k)
         | Inr details \<Rightarrow>
             let reviews_data' = acc @ map (review_entry nm address rc) (page_reviews details)
             in if truthy (next_page_token details)
                then f g pid nm address rc (Suc k) (next_page_token details)
                      (tr @ [CallPlace pid page_token, Sleep 2]) reviews_data'
                else Some (tr @ [CallPlace pid page_token], Inr reviews_data', Suc k)) = Some y"
  show "\<not> always_token g pid"
  proof
    assume a: "always_token g pid"
    then obtain d where d: "place g k pid (if truthy token then token else None) = Inr d"
      "truthy (next_page_token d)" unfolding always_token_def by blast
    with body have "f g pid nm address rc (Suc k) (next_page_token d)
                  (tr @ [CallPlace pid (if truthy token then token else None), Sleep 2])
                  (acc @ map (review_entry nm address rc) (page_reviews d)) = Some y"
      by (simp add: Let_def)
    from IH[OF this] a show False by contradiction
  qed
qed

lemma fetch_never_ends:
  "always_token g pid \<Longrightarrow> fetch_reviews g pid nm address rc k token tr acc = None"
  using fetch_never_ends_aux[of g pid nm address rc k token tr acc]
  by (cases "fetch_reviews g pid nm address rc k token tr acc") auto

lemma fetch_no_exit_aux:
  assumes "fetch_reviews g0 pid0 nm0 address0 rc0 k0 token0 tr0 acc0 = Some y0"
  shows "\<forall>tr' n k'. y0 \<noteq> (tr', Inl (SystemExit n), k')"
proof (rule fetch_reviews.raw_induct[where P = "\<lambda>g pid nm address rc k token tr acc y.
          \<forall>tr' n k'. y \<noteq> (tr', Inl (SystemExit n), k')", OF _ assms])
  fix f :: "gmaps_client \<Rightarrow> string \<Rightarrow> string \<Rightarrow> string \<Rightarrow> int \<Rightarrow> nat \<Rightarrow> string option \<Rightarrow> event list
     \<Rightarrow> review_row list \<Rightarrow> (event list \<times> (exn + review_row list) \<times> nat) option"
  fix g pid nm address rc k token tr acc y
  assume IH: "\<And>g pid nm address rc k token tr acc y. f g pid nm address rc k token tr acc = Some y \<Longrightarrow>
     \<forall>tr' n k'. y \<noteq> (tr', Inl (SystemExit n), k')"
  assume body: "(let page_token = if truthy token then token else None
      in case place g k pid page_token of
         Inl msg \<Rightarrow> Some (tr @ [CallPlace pid page_token], Inl (Exception msg), Suc k)
         | Inr details \<Rightarrow>
             let reviews_data' = acc @ map (review_entry nm address rc) (page_reviews details)
             in if truthy (next_page_token details)
                then f g pid nm address rc (Suc k) (next_page_token details)
                      (tr @ [CallPlace pid page_token, Sleep 2]) reviews_data'
                else Some (tr @ [CallPlace pid page_token], Inr reviews_data', Suc k)) = Some y"
  show "\<forall>tr' n k'. y \<noteq> (tr', Inl (SystemExit n), k')"
  proof (cases "place g k pid (if truthy token then token else None)")
    case (Inl msg)
    with body show ?thesis by (auto simp: Let_def)
  next
    case (Inr d)
    show ?thesis
    proof (cases "truthy (next_page_token d)")
      case False
      with body Inr show ?thesis by (auto simp: Let_def)
    next
      case True
      with body Inr have "f g pid nm address rc (Suc k) (next_page_token d)
                  (tr @ [CallPlace pid (if truthy token then token else None), Sleep 2])
                  (acc @ map (review_entry nm address rc) (page_reviews d)) = Some y"
        by (simp add: Let_def)
      from IH[OF this] show ?thesis .
    qed
  qed
qed

lemma fetch_events_aux:
  assumes "fetch_reviews g0 pid0 nm0 address0 rc0 k0 token0 tr0 acc0 = Some y0"
  shows "\<exists>evs. fst y0 = tr0 @ evs \<and> (\<forall>e \<in> set evs. early e)"
proof (rule fetch_reviews.raw_induct[where P = "\<lambda>g pid nm address rc k token tr acc y.
          \<exists>evs. fst y = tr @ evs \<and> (\<forall>e \<in> set evs. early e)", OF _ assms])
  fix f :: "gmaps_client \<Rightarrow> string \<Rightarrow> string \<Rightarrow> string \<Rightarrow> int \<Rightarrow> nat \<Rightarrow> string option \<Rightarrow> event list
     \<Rightarrow> review_row list \<Rightarrow> (event list \<times> (exn + review_row list) \<times> nat) option"
  fix g pid nm address rc k token tr acc y
  assume IH: "\<And>g pid nm address rc k token tr acc y. f g pid nm address rc k token tr acc = Some y \<Longrightarrow>
     \<exists>evs. fst y = tr @ evs \<and> (\<forall>e \<in> set evs. early e)"
  assume body: "(let page_token = if truthy token then token else None
      in case place g k pid page_token of
         Inl msg \<Rightarrow> Some (tr @ [CallPlace pid page_token], Inl (Exception msg), Suc k)
         | Inr details \<Rightarrow>
             let reviews_data' = acc @ map (review_entry nm address rc) (page_reviews details)
             in if truthy (next_page_token details)
                then f g pid nm address rc (Suc k) (next_page_token details)
                      (tr @ [CallPlace pid page_token, Sleep 2]) reviews_data'
                else Some (tr @ [CallPlace pid page_token], Inr reviews_data', Suc k)) = Some y"
  show "\<exists>evs. fst y = tr @ evs \<and> (\<forall>e \<in> set evs. early e)"
  proof (cases "place g k pid (if truthy token then token else None)")
    case (Inl msg)
    with body have "fst y = tr @ [CallPlace pid (if truthy token then token else None)]"
      by (auto simp: Let_def)
    then show ?thesis by (intro exI[of _ "[CallPlace pid (if truthy token then token else None)]"]) (simp add: early_def)
  next
    case (Inr d)
    show ?thesis
    proof (cases "truthy (next_page_token d)")
      case False
      with body Inr have "fst y = tr @ [CallPlace pid (if truthy token then token else None)]"
        by (auto simp: Let_def)
      then show ?thesis by (intro exI[of _ "[CallPlace pid (if truthy token then token else None)]"]) (simp add: early_def)
    next
      case True
      with body Inr have "f g pid nm address rc (Suc k) (next_page_token d)
                  (tr @ [CallPlace pid (if truthy token then token else None), Sleep 2])
                  (acc @ map (review_entry nm address rc) (page_reviews d)) = Some y"
        by (simp add: Let_def)
      from IH[OF this] obtain evs where
        evs: "fst y = (tr @ [CallPlace pid (if truthy token then token else None), Sleep 2]) @ evs"
          "\<forall>e \<in> set evs. early e" by blast
      show ?thesis
        by (intro exI[of _ "[CallPlace pid (if truthy token then token else None), Sleep 2] @ evs"])
           (use evs in \<open>simp add: early_def\<close>)
    qed
  qed
qed

lemma fetch_events:
  "fetch_reviews g pid nm address rc k token [] acc = Some (tr, r, k') \<Longrightarrow> \<forall>e \<in> set tr. early e"
  using fetch_events_aux[of g pid nm address rc k token "[]" acc "(tr, r, k')"] by auto

lemma fetch_no_exit:
  "fetch_reviews g pid nm address rc k token tr acc = Some (tr', r, k') \<Longrightarrow> r \<noteq> Inl (SystemExit n)"
  using fetch_no_exit_aux[of g pid nm address rc k token tr acc "(tr', r, k')"] by auto

lemma places_loop_facts:
  "places_loop g k ps bd rd = Some (tr, r, k') \<Longrightarrow>
     (\<forall>e \<in> set tr. early e) \<and> (\<forall>n. r \<noteq> Inl (SystemExit n))
     \<and> (\<forall>bd' rd'. r = Inr (bd', rd') \<longrightarrow> bd' = bd @ map business_entry ps)"
proof (induction ps arbitrary: k bd rd tr r k')
  case Nil
  then show ?case by auto
next
  case (Cons p ps)
  show ?case
  proof (cases "place_id p")
    case None
    with Cons.prems show ?thesis by (auto simp: KeyError_def)
  next
    case (Some pid)
    let ?nm = "get_default (name p) ''N/A''"
    let ?ad = "get_default (vicinity p) ''N/A''"
    let ?rc = "get_default (user_ratings_total p) 0"
    from Cons.prems Some obtain t1 r1 k1 where
      f: "fetch_reviews g pid ?nm ?ad ?rc k None [] rd = Some (t1, r1, k1)"
      by (cases "fetch_reviews g pid ?nm ?ad ?rc k None [] rd") (auto simp: Let_def)
    from fetch_events[OF f] have e1: "\<forall>e \<in> set t1. early e" .
    from fetch_no_exit[OF f] have x1: "\<And>n. r1 \<noteq> Inl (SystemExit n)" .
    show ?thesis
    proof (cases r1)
      case (Inl e)
      with Cons.prems Some f have "tr = t1" "r = Inl e" by (auto simp: Let_def)
      with e1 x1 Inl show ?thesis by auto
    next
      case (Inr rd1)
      with Cons.prems Some f obtain t2 r2 k2 where
        p: "places_loop g k1 ps (bd @ [business_entry p]) rd1 = Some (t2, r2, k2)"
        and tr: "tr = t1 @ t2" "r = r2"
        by (cases "places_loop g k1 ps (bd @ [business_entry p]) rd1") (auto simp: Let_def)
      from Cons.IH[OF p] e1 tr show ?thesis by auto
    qed
  qed
qed

lemma coordinates_no_exit: "coordinates c \<noteq> Inl (SystemExit n)"
  by (simp add: coordinates_def KeyError_def split: option.splits)

lemma resolve_events: "\<forall>e \<in> set (fst (resolve_location g loc)). early e"
  by (simp add: resolve_location_def early_def split: sum.splits list.splits)

lemma resolve_exit:
  "(snd (resolve_location g loc) = Inl (SystemExit n)) = (n = 1 \<and> geocode g loc = Inr [])"
  by (auto simp: resolve_location_def coordinates_no_exit split: sum.splits list.splits)

lemma collect_events:
  "collect g loc bt = Some (tr, r) \<Longrightarrow> \<forall>e \<in> set tr. early e"
proof -
  assume c: "collect g loc bt = Some (tr, r)"
  obtain t0 r0 where rl: "resolve_location g loc = (t0, r0)" by (cases "resolve_location g loc")
  from resolve_events[of g loc] rl have e0: "\<forall>e \<in> set t0. early e" by simp
  show ?thesis
  proof (cases r0)
    case (Inl e)
    with c rl e0 show ?thesis by (simp add: collect_def)
  next
    case (Inr latlng)
    show ?thesis
    proof (cases "places_nearby g latlng 2000 bt bt")
      case (Inl msg)
      with c rl Inr e0 show ?thesis by (auto simp: collect_def Let_def early_def)
    next
      case r: (Inr resp)
      show ?thesis
      proof (cases "get_default (results resp) []")
        case Nil
        with c rl Inr r e0 show ?thesis by (auto simp: collect_def Let_def early_def)
      next
        case (Cons p ps)
        with c rl Inr r obtain t2 r2 k2 where
          pl: "places_loop g 0 (p # ps) [] [] = Some (t2, r2, k2)"
          and tr: "tr = (t0 @ [CallPlacesNearby latlng 2000 bt bt]) @ t2"
          by (cases "places_loop g 0 (p # ps) [] []") (auto simp: collect_def Let_def)
        from places_loop_facts[OF pl] e0 tr show ?thesis by (auto simp: early_def)
      qed
    qed
  qed
qed

lemma collect_exit:
  "collect g loc bt = Some (tr, Inl (SystemExit n)) \<Longrightarrow>
     n = 1 \<and> (geocode g loc = Inr []
       \<or> (\<exists>latlng resp. snd (resolve_location g loc) = Inr latlng
             \<and> places_nearby g latlng 2000 bt bt = Inr resp \<and> get_default (results resp) [] = []))"
proof -
  assume c: "collect g loc bt = Some (tr, Inl (SystemExit n))"
  obtain t0 r0 where rl: "resolve_location g loc = (t0, r0)" by (cases "resolve_location g loc")
  show ?thesis
  proof (cases r0)
    case (Inl e)
    with c rl have "snd (resolve_location g loc) = Inl (SystemExit n)" by (simp add: collect_def)
    then show ?thesis by (simp add: resolve_exit)
  next
    case (Inr latlng)
    show ?thesis
    proof (cases "places_nearby g latlng 2000 bt bt")
      case (Inl msg)
      with c rl Inr show ?thesis by (auto simp: collect_def Let_def)
    next
      case r: (Inr resp)
      show ?thesis
      proof (cases "get_default (results resp) []")
        case Nil
        with c rl Inr r show ?thesis by (auto simp: collect_def Let_def)
      next
        case (Cons p ps)
        with c rl Inr r obtain t2 k2 where
          pl: "places_loop g 0 (p # ps) [] [] = Some (t2, Inl (SystemExit n), k2)"
          by (cases "places_loop g 0 (p # ps) [] []") (auto simp: collect_def Let_def)
        from places_loop_facts[OF pl] show ?thesis by blast
      qed
    qed
  qed
qed

lemma collect_exit_geocode:
  "geocode g loc = Inr [] \<Longrightarrow>
   collect g loc bt = Some ([CallGeocode loc, Print ''Location not found.''], Inl (SystemExit 1))"
  by (simp add: collect_def resolve_location_def)

lemma collect_exit_places:
  "snd (resolve_location g loc) = Inr latlng \<Longrightarrow> places_nearby g latlng 2000 bt bt = Inr resp \<Longrightarrow>
   get_default (results resp) [] = [] \<Longrightarrow>
   \<exists>tr. collect g loc bt = Some (tr, Inl (SystemExit 1))"
  by (cases "resolve_location g loc") (auto simp: collect_def Let_def)

lemma collect_data:
  "collect g loc bt = Some (tr, Inr (bd, rd)) \<Longrightarrow>
   \<exists>latlng resp ps. snd (resolve_location g loc) = Inr latlng \<and> places_nearby g latlng 2000 bt bt = Inr resp
      \<and> results resp = Some ps \<and> ps \<noteq> [] \<and> bd = map business_entry ps"
proof -
  assume c: "collect g loc bt = Some (tr, Inr (bd, rd))"
  obtain t0 r0 where rl: "resolve_location g loc = (t0, r0)" by (cases "resolve_location g loc")
  show ?thesis
  proof (cases r0)
    case (Inl e)
    with c rl show ?thesis by (simp add: collect_def)
  next
    case (Inr latlng)
    show ?thesis
    proof (cases "places_nearby g latlng 2000 bt bt")
      case (Inl msg)
      with c rl Inr show ?thesis by (auto simp: collect_def Let_def)
    next
      case r: (Inr resp)
      show ?thesis
      proof (cases "get_default (results resp) []")
        case Nil
        with c rl Inr r show ?thesis by (auto simp: collect_def Let_def)
      next
        case (Cons p ps)
        then have res: "results resp = Some (p # ps)" by (cases "results resp") auto
        from Cons c rl Inr r obtain t2 k2 where
          pl: "places_loop g 0 (p # ps) [] [] = Some (t2, Inr (bd, rd), k2)"
          by (cases "places_loop g 0 (p # ps) [] []") (auto simp: collect_def Let_def)
        from places_loop_facts[OF pl] have "bd = map business_entry (p # ps)" by simp
        with rl Inr r res show ?thesis by auto
      qed
    qed
  qed
qed

lemma save_facts:
  "save_competitor_data lb bd = (tr, r) \<Longrightarrow>
     (\<forall>e \<in> set tr. \<not> is_CallGenerate e) \<and> (\<forall>n. r \<noteq> Inl (SystemExit n))
     \<and> (\<forall>f d. WriteCsv f d \<in> set tr \<longrightarrow> f = ''competitor_data.csv'' \<and> d = DataFrame bd)
     \<and> length (filter is_WriteCsv tr) \<le> 1
     \<and> (r = Inr () \<longrightarrow> length (filter is_WriteCsv tr) = 1 \<and> length (filter is_ShowScatter tr) = 1)"
  by (auto simp: save_competitor_data_def Let_def split: option.splits if_splits)

lemma save_cong:
  "to_csv lb' = to_csv lb \<Longrightarrow> scatter_plot lb' = scatter_plot lb \<Longrightarrow>
   save_competitor_data lb' bd = save_competitor_data lb bd"
  by (simp add: save_competitor_data_def Let_def split: option.splits if_splits)

lemma try_body_late: "try_body c k r a = (tr, res) \<Longrightarrow> \<forall>e \<in> set tr. late e"
  by (auto simp: try_body_def Let_def late_def split: sum.splits option.splits if_splits)

lemma retry_loop_late: "retry_loop c k r a n = (tr, res, k') \<Longrightarrow> \<forall>e \<in> set tr. late e"
proof (induction n arbitrary: k a tr res k')
  case 0
  then show ?case by simp
next
  case (Suc n)
  obtain tb rb where tb: "try_body c k r a = (tb, rb)" by (cases "try_body c k r a")
  from try_body_late[OF tb] have l1: "\<forall>e \<in> set tb. late e" .
  obtain t2 r2 k2 where rl: "retry_loop c (Suc k) r (Suc a) n = (t2, r2, k2)"
    by (cases "retry_loop c (Suc k) r (Suc a) n")
  from Suc.IH[OF rl] have l2: "\<forall>e \<in> set t2. late e" .
  show ?case using Suc.prems tb rl l1 l2
    by (auto simp: late_def split: sum.splits option.splits exn.splits)
qed

lemma batch_loop_late: "batch_loop c k rs n acc = (tr, res, k') \<Longrightarrow> \<forall>e \<in> set tr. late e"
proof (induction rs arbitrary: k acc tr res k')
  case Nil
  then show ?case by simp
next
  case (Cons r rs)
  obtain t1 r1 k1 where rl: "retry_loop c k r 0 n = (t1, r1, k1)" by (cases "retry_loop c k r 0 n")
  from retry_loop_late[OF rl] have l1: "\<forall>e \<in> set t1. late e" .
  show ?case
  proof (cases r1)
    case (Inl e)
    with Cons.prems rl l1 show ?thesis by auto
  next
    case (Inr v)
    obtain t2 r2 k2 where bl: "batch_loop c k1 rs n (acc @ [v]) = (t2, r2, k2)"
      by (cases "batch_loop c k1 rs n (acc @ [v])")
    from Cons.IH[OF bl] have "\<forall>e \<in> set t2. late e" .
    with Cons.prems rl Inr bl l1 show ?thesis by auto
  qed
qed

lemma analyze_Inr: "\<exists>vs. fst (snd (analyze_reviews_batch c k rs n)) = Inr vs \<and> length vs = length rs"
  using batch_loop_Inr[of c k rs n "[]"] by (auto simp: analyze_reviews_batch_def)

lemma aspects_loop_no_exit: "aspects_loop b vs acc \<noteq> Inl (SystemExit n)"
proof (induction vs arbitrary: acc)
  case Nil
  then show ?case by simp
next
  case (Cons v vs)
  then show ?case by (cases v) auto
qed

lemma business_loop_facts:
  "business_loop c k df bs acc = (tr, r, k') \<Longrightarrow> (\<forall>e \<in> set tr. late e) \<and> (\<forall>n. r \<noteq> Inl (SystemExit n))"
proof (induction bs arbitrary: k acc tr r k')
  case Nil
  then show ?case by auto
next
  case (Cons b bs)
  let ?rs = "map Review (filter (\<lambda>r. Business r = b) df)"
  obtain t1 r1 k1 where an: "analyze_reviews_batch c k ?rs 3 = (t1, r1, k1)"
    by (cases "analyze_reviews_batch c k ?rs 3")
  from analyze_Inr[of c k ?rs 3] an obtain vs where vs: "r1 = Inr vs" by auto
  from an have "batch_loop c k ?rs 3 [] = (t1, r1, k1)" by (simp add: analyze_reviews_batch_def)
  from batch_loop_late[OF this] have l1: "\<forall>e \<in> set t1. late e" .
  show ?case
  proof (cases "aspects_loop b vs acc")
    case (Inl e)
    with Cons.prems an vs l1 aspects_loop_no_exit[of b vs acc] show ?thesis
      by (auto simp: Let_def late_def)
  next
    case (Inr acc')
    obtain t2 r2 k2 where bl: "business_loop c k1 df bs acc' = (t2, r2, k2)"
      by (cases "business_loop c k1 df bs acc'")
    from Cons.IH[OF bl] have "(\<forall>e \<in> set t2. late e) \<and> (\<forall>n. r2 \<noteq> Inl (SystemExit n))" .
    with Cons.prems an vs Inr bl l1 show ?thesis by (auto simp: Let_def late_def)
  qed
qed

lemma bars_loop_facts:
  "bars_loop lb t bs = (tr, r) \<Longrightarrow> (\<forall>e \<in> set tr. late e) \<and> (\<forall>n. r \<noteq> Inl (SystemExit n))"
proof (induction bs arbitrary: tr r)
  case Nil
  then show ?case by auto
next
  case (Cons b bs)
  obtain t2 r2 where bl: "bars_loop lb t bs = (t2, r2)" by (cases "bars_loop lb t bs")
  from Cons.IH[OF bl] have "(\<forall>e \<in> set t2. late e) \<and> (\<forall>n. r2 \<noteq> Inl (SystemExit n))" .
  with Cons.prems bl show ?case by (auto simp: late_def split: if_splits option.splits)
qed

lemma aspect_report_facts:
  "aspect_report lb df rs = (tr, r) \<Longrightarrow> (\<forall>e \<in> set tr. late e) \<and> (\<forall>n. r \<noteq> Inl (SystemExit n))"
proof -
  assume a: "aspect_report lb df rs = (tr, r)"
  obtain t2 r2 where bl: "bars_loop lb (aspect_summary_percent rs) (unique (map Business df)) = (t2, r2)"
    by (cases "bars_loop lb (aspect_summary_percent rs) (unique (map Business df))")
  from bars_loop_facts[OF bl] have "(\<forall>e \<in> set t2. late e) \<and> (\<forall>n. r2 \<noteq> Inl (SystemExit n))" .
  with a bl show ?thesis by (auto simp: aspect_report_def late_def split: if_splits option.splits)
qed

lemma sentiment_empty:
  "sentiment_stage c lb [] = ([Print ''No reviews found for these businesses.''], Inl (SystemExit 1))"
  by (simp add: sentiment_stage_def)

lemma sentiment_facts:
  "sentiment_stage c lb rd = (tr, r) \<Longrightarrow>
     (\<forall>e \<in> set tr. late e) \<and> (\<forall>n. (r = Inl (SystemExit n)) = (n = 1 \<and> rd = []))"
proof (cases "rd = []")
  case True
  assume "sentiment_stage c lb rd = (tr, r)"
  with True show ?thesis by (auto simp: sentiment_empty late_def)
next
  case False
  assume s: "sentiment_stage c lb rd = (tr, r)"
  obtain t1 r1 k1 where bl: "business_loop c 0 rd (unique (map Business rd)) [] = (t1, r1, k1)"
    by (cases "business_loop c 0 rd (unique (map Business rd)) []")
  from business_loop_facts[OF bl] have f1: "\<forall>e \<in> set t1. late e" "\<And>n. r1 \<noteq> Inl (SystemExit n)" by auto
  show ?thesis
  proof (cases r1)
    case (Inl e)
    with s False bl f1 show ?thesis by (auto simp: sentiment_stage_def Let_def late_def)
  next
    case (Inr rs)
    obtain t2 r2 where ar: "aspect_report lb rd rs = (t2, r2)" by (cases "aspect_report lb rd rs")
    from aspect_report_facts[OF ar] have "(\<forall>e \<in> set t2. late e) \<and> (\<forall>n. r2 \<noteq> Inl (SystemExit n))" .
    with s False bl Inr ar f1 show ?thesis by (auto simp: sentiment_stage_def Let_def late_def)
  qed
qed

lemma main_logic_cases:
  "main_logic g c lb loc bt = Some (tr, r) \<Longrightarrow>
     (\<exists>e. collect g loc bt = Some (tr, Inl e) \<and> r = Inl e)
   \<or> (\<exists>trA bd rd trB e. collect g loc bt = Some (trA, Inr (bd, rd)) \<and> save_competitor_data lb bd = (trB, Inl e)
          \<and> tr = trA @ trB \<and> r = Inl e)
   \<or> (\<exists>trA bd rd trB trC. collect g loc bt = Some (trA, Inr (bd, rd)) \<and> save_competitor_data lb bd = (trB, Inr ())
          \<and> sentiment_stage c lb rd = (trC, r) \<and> tr = trA @ trB @ trC)"
  by (auto simp: main_logic_def split: option.splits sum.splits prod.splits)

lemma main_logic_None:
  "(main_logic g c lb loc bt = None) = (collect g loc bt = None)"
  by (auto simp: main_logic_def split: option.splits sum.splits prod.splits)

lemma startup_events: "e \<in> set (fst (startup w)) \<Longrightarrow> early e \<and> late e \<and> \<not> is_CallGenerate e"
  by (auto simp: startup_def early_def late_def split: if_splits sum.splits)

lemma startup_fail:
  "startup w = (tr0, Inl e) \<Longrightarrow>
     (e = Exit 1 \<and> (\<not> truthy (GOOGLE_MAPS_API_KEY w) \<or> \<not> truthy (GEMINI_API_KEY w)))
   \<or> ((\<exists>msg. e = Uncaught msg) \<and> truthy (GOOGLE_MAPS_API_KEY w) \<and> truthy (GEMINI_API_KEY w))"
  by (auto simp: startup_def split: if_splits sum.splits)

lemma startup_ok:
  "startup w = (tr0, Inr x) \<Longrightarrow> truthy (GOOGLE_MAPS_API_KEY w) \<and> truthy (GEMINI_API_KEY w)"
  by (auto simp: startup_def split: if_splits sum.splits)

lemma startup_same:
  "same_before_extraction w w' \<Longrightarrow>
     (startup w = (tr0, Inl e) \<longrightarrow> (\<exists>e'. startup w' = (tr0, Inl e')))
   \<and> (startup w = (tr0, Inr (g, c, loc, bt)) \<longrightarrow> (\<exists>c'. startup w' = (tr0, Inr (g, c', loc, bt))))"
  by (cases "genai_Client w (get_default (GEMINI_API_KEY w) [])";
      cases "genai_Client w' (get_default (GEMINI_API_KEY w) [])")
     (auto simp: startup_def same_before_extraction_def split: if_splits sum.splits)

lemma main_startup_fail: "startup w = (tr0, Inl e) \<Longrightarrow> main w = Some \<lparr>trace = tr0, ending = e\<rparr>"
  by (simp add: main_def)

lemma main_startup_ok:
  "startup w = (tr0, Inr (g, c, loc, bt)) \<Longrightarrow> main w = guarded tr0 (main_logic g c (lib w) loc bt)"
  by (simp add: main_def)

lemma guarded_Some:
  "guarded tr0 (Some (tr, r)) = Some out \<Longrightarrow>
     (\<exists>n. r = Inl (SystemExit n) \<and> out = \<lparr>trace = tr0 @ tr, ending = Exit n\<rparr>)
   \<or> (\<exists>msg. r = Inl (Exception msg)
         \<and> out = \<lparr>trace = tr0 @ tr @ [Print (''An unexpected error occurred: '' @ msg)], ending = Completed\<rparr>)
   \<or> (r = Inr () \<and> out = \<lparr>trace = tr0 @ tr, ending = Completed\<rparr>)"
  by (auto simp: guarded_def split: sum.splits exn.splits)

lemma guarded_trace:
  "guarded tr0 (Some (tr, r)) = Some out \<Longrightarrow>
     \<exists>post. trace out = tr0 @ tr @ post \<and> (\<forall>e \<in> set post. late e \<and> early e)"
  by (auto simp: guarded_def late_def early_def split: sum.splits exn.splits)

lemma guarded_total: "\<exists>out. guarded tr0 (Some x) = Some out"
  by (cases x) (auto simp: guarded_def split: sum.splits exn.splits)

lemma guarded_None: "guarded tr0 body = Some out \<Longrightarrow> \<exists>tr r. body = Some (tr, r)"
  by (cases body) (auto simp: guarded_def)

lemma early_filter:
  "\<forall>e \<in> set tr. early e \<Longrightarrow>
     filter is_WriteCsv tr = [] \<and> filter is_ShowScatter tr = [] \<and> filter is_CallGenerate tr = []"
  by (induction tr) (auto simp: early_def)

lemma late_filter:
  "\<forall>e \<in> set tr. late e \<Longrightarrow> filter is_WriteCsv tr = [] \<and> filter is_ShowScatter tr = []"
  by (induction tr) (auto simp: late_def)

lemma split_order:
  assumes "tr = pre @ post" "\<forall>e \<in> set pre. \<not> P e" "\<forall>e \<in> set post. \<not> Q e"
    "i < length tr" "j < length tr" "P (tr ! i)" "Q (tr ! j)"
  shows "j < i"
proof -
  have "\<not> i < length pre"
  proof
    assume "i < length pre"
    then have "tr ! i \<in> set pre" using assms(1) by (simp add: nth_append)
    with assms(2,6) show False by blast
  qed
  moreover have "j < length pre"
  proof (rule ccontr)
    assume "\<not> j < length pre"
    then have "tr ! j = post ! (j - length pre)" "j - length pre < length post"
      using assms(1,5) by (auto simp: nth_append)
    then have "tr ! j \<in> set post" by (metis nth_mem)
    with assms(3,7) show False by blast
  qed
  ultimately show ?thesis by simp
qed

lemma sentiment_total: "\<exists>tr r. sentiment_stage c lb rd = (tr, r)"
  by (cases "sentiment_stage c lb rd") auto

lemma main_logic_exit:
  assumes "main_logic g c lb loc bt = Some (tr, r)"
  shows "((\<exists>n. r = Inl (SystemExit n)) =
            (geocode g loc = Inr []
             \<or> (\<exists>latlng resp. snd (resolve_location g loc) = Inr latlng
                   \<and> places_nearby g latlng 2000 bt bt = Inr resp \<and> get_default (results resp) [] = [])
             \<or> (\<exists>trA bd. collect g loc bt = Some (trA, Inr (bd, []))
                   \<and> snd (save_competitor_data lb bd) = Inr ())))
         \<and> (\<forall>n. r = Inl (SystemExit n) \<longrightarrow> n = 1)"
proof -
  let ?A = "geocode g loc = Inr []"
  let ?B = "\<exists>latlng resp. snd (resolve_location g loc) = Inr latlng
                   \<and> places_nearby g latlng 2000 bt bt = Inr resp \<and> get_default (results resp) [] = []"
  let ?C = "\<exists>trA bd. collect g loc bt = Some (trA, Inr (bd, []))
                   \<and> snd (save_competitor_data lb bd) = Inr ()"
  have fwd: "\<And>n. r = Inl (SystemExit n) \<Longrightarrow> n = 1 \<and> (?A \<or> ?B \<or> ?C)"
  proof -
    fix n assume r: "r = Inl (SystemExit n)"
    from main_logic_cases[OF assms] show "n = 1 \<and> (?A \<or> ?B \<or> ?C)"
    proof (elim disjE exE conjE)
      fix e assume "collect g loc bt = Some (tr, Inl e)" "r = Inl e"
      with r have "collect g loc bt = Some (tr, Inl (SystemExit n))" by simp
      from collect_exit[OF this] show ?thesis by blast
    next
      fix trA bd rd trB e
      assume "save_competitor_data lb bd = (trB, Inl e)" "r = Inl e"
      with r save_facts[of lb bd trB "Inl e"] show ?thesis by auto
    next
      fix trA bd rd trB trC
      assume c: "collect g loc bt = Some (trA, Inr (bd, rd))" and s: "save_competitor_data lb bd = (trB, Inr ())"
        and st: "sentiment_stage c lb rd = (trC, r)"
      from sentiment_facts[OF st] r have "n = 1" "rd = []" by auto
      with c s show ?thesis by auto
    qed
  qed
  have bwd: "?A \<or> ?B \<or> ?C \<Longrightarrow> \<exists>n. r = Inl (SystemExit n)"
  proof (elim disjE)
    assume ?A
    from collect_exit_geocode[OF this, of bt] assms show ?thesis by (auto simp: main_logic_def)
  next
    assume ?B
    then obtain latlng resp where "snd (resolve_location g loc) = Inr latlng"
      "places_nearby g latlng 2000 bt bt = Inr resp" "get_default (results resp) [] = []" by blast
    from collect_exit_places[OF this] obtain trA where "collect g loc bt = Some (trA, Inl (SystemExit 1))" by blast
    with assms show ?thesis by (auto simp: main_logic_def)
  next
    assume ?C
    then obtain trA bd where c: "collect g loc bt = Some (trA, Inr (bd, []))"
      and s: "snd (save_competitor_data lb bd) = Inr ()" by blast
    obtain trB where "save_competitor_data lb bd = (trB, Inr ())" using s by (cases "save_competitor_data lb bd") auto
    with c assms show ?thesis by (auto simp: main_logic_def sentiment_empty)
  qed
  from fwd bwd show ?thesis by blast
qed

lemma main_logic_split:
  assumes "main_logic g c lb loc bt = Some (tr, r)"
  shows "\<exists>pre post. tr = pre @ post \<and> (\<forall>e \<in> set pre. \<not> is_CallGenerate e) \<and> (\<forall>e \<in> set post. late e)
     \<and> length (filter is_WriteCsv pre) \<le> 1
     \<and> (\<forall>f d. WriteCsv f d \<in> set pre \<longrightarrow> f = ''competitor_data.csv'' \<and>
           (\<exists>trA bd rd. collect g loc bt = Some (trA, Inr (bd, rd)) \<and> d = DataFrame bd))
     \<and> (post \<noteq> [] \<longrightarrow> length (filter is_WriteCsv pre) = 1 \<and> length (filter is_ShowScatter pre) = 1)"
  using main_logic_cases[OF assms]
proof (elim disjE exE conjE)
  fix e assume c: "collect g loc bt = Some (tr, Inl e)"
  from collect_events[OF c] have ev: "\<forall>e \<in> set tr. early e" .
  from early_filter[OF ev] have f: "filter is_WriteCsv tr = []" by simp
  have nw: "\<And>f d. WriteCsv f d \<notin> set tr" using ev by (auto simp: early_def)
  show ?thesis
    by (intro exI[of _ tr] exI[of _ "[]"]) (use ev f nw in \<open>auto simp: early_def\<close>)
next
  fix trA bd rd trB e
  assume c: "collect g loc bt = Some (trA, Inr (bd, rd))" and s: "save_competitor_data lb bd = (trB, Inl e)"
    and tr: "tr = trA @ trB"
  from collect_events[OF c] have ev: "\<forall>e \<in> set trA. early e" .
  from early_filter[OF ev] have f: "filter is_WriteCsv trA = []" by simp
  have nw: "\<And>f d. WriteCsv f d \<notin> set trA" using ev by (auto simp: early_def)
  from save_facts[OF s] have sf: "\<forall>e \<in> set trB. \<not> is_CallGenerate e"
    "\<forall>f d. WriteCsv f d \<in> set trB \<longrightarrow> f = ''competitor_data.csv'' \<and> d = DataFrame bd"
    "length (filter is_WriteCsv trB) \<le> 1" by auto
  show ?thesis
    by (intro exI[of _ "trA @ trB"] exI[of _ "[]"]) (use tr ev f nw sf c in \<open>auto simp: early_def\<close>)
next
  fix trA bd rd trB trC
  assume c: "collect g loc bt = Some (trA, Inr (bd, rd))" and s: "save_competitor_data lb bd = (trB, Inr ())"
    and st: "sentiment_stage c lb rd = (trC, r)" and tr: "tr = trA @ trB @ trC"
  from collect_events[OF c] have ev: "\<forall>e \<in> set trA. early e" .
  from early_filter[OF ev] have f: "filter is_WriteCsv trA = []" "filter is_ShowScatter trA = []" by simp_all
  have nw: "\<And>f d. WriteCsv f d \<notin> set trA" using ev by (auto simp: early_def)
  from save_facts[OF s] have sf: "\<forall>e \<in> set trB. \<not> is_CallGenerate e"
    "\<forall>f d. WriteCsv f d \<in> set trB \<longrightarrow> f = ''competitor_data.csv'' \<and> d = DataFrame bd"
    "length (filter is_WriteCsv trB) = 1" "length (filter is_ShowScatter trB) = 1" by auto
  from sentiment_facts[OF st] have l: "\<forall>e \<in> set trC. late e" by simp
  show ?thesis
    by (intro exI[of _ "trA @ trB"] exI[of _ trC]) (use tr ev f nw sf c l in \<open>auto simp: early_def\<close>)
qed

lemma aspects_loop_empty: "\<forall>v \<in> set vs. v = JObj [] \<Longrightarrow> aspects_loop b vs acc = Inr acc"
  by (induction vs arbitrary: acc) auto

lemma batch_all_fail:
  assumes "\<forall>k r. attempt_fails c k r"
  shows "\<exists>vs. fst (snd (batch_loop c k rs n [])) = Inr vs \<and> (\<forall>v \<in> set vs. v = JObj [])"
proof -
  from batch_loop_Inr[of c k rs n "[]"] obtain vs where
    vs: "fst (snd (batch_loop c k rs n [])) = Inr vs" "length vs = length rs"
      "\<forall>i<length rs. fst (snd (retry_loop c (snd (snd (batch_loop c k (take i rs) n []))) (rs ! i) 0 n))
        = Inr (vs ! i)" by auto
  have "\<forall>v \<in> set vs. v = JObj []"
  proof
    fix v assume "v \<in> set vs"
    then obtain i where i: "i < length vs" "vs ! i = v" by (auto simp: in_set_conv_nth)
    let ?k = "snd (snd (batch_loop c k (take i rs) n []))"
    from retry_loop_all_fail[of n c ?k "rs ! i" 0] assms
    have "fst (snd (retry_loop c ?k (rs ! i) 0 n)) = Inr (JObj [])" by blast
    with vs(2,3) i show "v = JObj []" by auto
  qed
  with vs(1) show ?thesis by blast
qed

lemma business_loop_all_fail:
  assumes "\<forall>k r. attempt_fails c k r"
  shows "fst (snd (business_loop c k df bs acc)) = Inr acc"
proof (induction bs arbitrary: k acc)
  case Nil
  then show ?case by simp
next
  case (Cons b bs)
  let ?rs = "map Review (filter (\<lambda>r. Business r = b) df)"
  obtain t1 r1 k1 where an: "analyze_reviews_batch c k ?rs 3 = (t1, r1, k1)"
    by (cases "analyze_reviews_batch c k ?rs 3")
  from batch_all_fail[OF assms, of k ?rs 3] an obtain vs where
    vs: "r1 = Inr vs" "\<forall>v \<in> set vs. v = JObj []" by (auto simp: analyze_reviews_batch_def)
  from aspects_loop_empty[OF vs(2)] have al: "aspects_loop b vs acc = Inr acc" .
  obtain t2 r2 k2 where bl: "business_loop c k1 df bs acc = (t2, r2, k2)"
    by (cases "business_loop c k1 df bs acc")
  from Cons.IH[of k1 acc] bl have "r2 = Inr acc" by simp
  with an vs(1) al bl show ?case by (simp add: Let_def)
qed

lemma raising_fails: "attempt_fails raising_client k r"
  by (simp add: attempt_fails_def raising_client_def)

lemma strip_line1: "strip '' Mumbai CST '' = ''Mumbai CST''"
  by (simp add: strip_def isspace_def)

lemma lower_line2: "lower (strip ''Cafe'') = ''cafe''"
  by code_simp

lemma startup_world_of:
  "startup (world_of g c) =
     ([Input ''Enter city/location (e.g., Mumbai CST): '',
       Input ''Enter type of business (e.g., restaurant, electronics_store): ''],
      Inr (g, c, ''Mumbai CST'', ''cafe''))"
  by (simp add: startup_def world_of_def strip_line1 lower_line2)

lemma lib_world_of: "lib (world_of g c) = calm_lib"
  by (simp add: world_of_def)

lemma calm_save:
  "\<not> list_all (\<lambda>b. Rating b = None) bd \<Longrightarrow>
   save_competitor_data calm_lib bd =
     ([WriteCsv ''competitor_data.csv'' (DataFrame bd),
       Print (CHR 0x0A # ''--- Competitor Data ---''),
       PrintFrame (DataFrame bd),
       Print ([CHR 0x0A, CHR 0xE2, CHR 0x9C, CHR 0x85] @ '' Data saved to competitor_data.csv''),
       ShowScatter (DataFrame bd)], Inr ())"
  by (simp add: save_competitor_data_def calm_lib_def Let_def)

lemma calm_save_unrated:
  "bd \<noteq> [] \<Longrightarrow> list_all (\<lambda>b. Rating b = None) bd \<Longrightarrow>
   save_competitor_data calm_lib bd =
     ([WriteCsv ''competitor_data.csv'' (DataFrame bd),
       Print (CHR 0x0A # ''--- Competitor Data ---''),
       PrintFrame (DataFrame bd),
       Print ([CHR 0x0A, CHR 0xE2, CHR 0x9C, CHR 0x85] @ '' Data saved to competitor_data.csv'')],
      Inl (Exception rating_TypeError))"
  by (simp add: save_competitor_data_def calm_lib_def Let_def)

lemma quiet_unrated: "list_all (\<lambda>b. Rating b = None) [business_entry quiet_place]"
  by (simp add: business_entry_def quiet_place_def)

lemma busy_rated: "\<not> list_all (\<lambda>b. Rating b = None) [business_entry busy_place]"
  by (simp add: business_entry_def busy_place_def)

lemma rated_rated: "\<not> list_all (\<lambda>b. Rating b = None) [business_entry rated_place]"
  by (simp add: business_entry_def rated_place_def)

lemma quiet_fetch:
  "fetch_reviews quiet_gmaps ''p1'' ''Cafe A'' ''1 Main St'' 0 0 None [] [] =
       Some ([CallPlace ''p1'' None, Sleep 2, CallPlace ''p1'' (Some ''tok1'')], Inr [], 2)"
proof -
  have c1: "place quiet_gmaps 0 ''p1'' (if truthy None then None else None) = Inr (empty_page (Some ''tok1''))"
    by (simp add: quiet_gmaps_def)
  have t1: "truthy (next_page_token (empty_page (Some ''tok1'')))" by (simp add: empty_page_def)
  have c2: "place quiet_gmaps (Suc 0) ''p1''
        (if truthy (next_page_token (empty_page (Some ''tok1''))) then next_page_token (empty_page (Some ''tok1'')) else None)
      = Inr (empty_page None)"
    by (simp add: quiet_gmaps_def empty_page_def)
  have t2: "\<not> truthy (next_page_token (empty_page None))" by (simp add: empty_page_def)
  have r: "page_reviews (empty_page (Some ''tok1'')) = []" "page_reviews (empty_page None) = []"
    by (simp_all add: page_reviews_def empty_page_def)
  show ?thesis
    by (simp add: fetch_next[OF c1 t1] fetch_last[OF c2 t2] r) (simp add: empty_page_def)
qed

lemma quiet_collect:
  "collect quiet_gmaps loc bt =
     Some ([CallGeocode loc, CallPlacesNearby (19, 73) 2000 bt bt,
            CallPlace ''p1'' None, Sleep 2, CallPlace ''p1'' (Some ''tok1'')],
           Inr ([business_entry quiet_place], []))"
proof -
  have r: "resolve_location quiet_gmaps loc = ([CallGeocode loc], Inr (19, 73))"
    by (simp add: resolve_location_def quiet_gmaps_def coordinates_def)
  have n: "places_nearby quiet_gmaps (19, 73) 2000 bt bt = Inr \<lparr>results = Some [quiet_place]\<rparr>"
    by (simp add: quiet_gmaps_def)
  have q: "place_id quiet_place = Some ''p1''" "get_default (name quiet_place) ''N/A'' = ''Cafe A''"
    "get_default (vicinity quiet_place) ''N/A'' = ''1 Main St''" "get_default (user_ratings_total quiet_place) 0 = 0"
    by (simp_all add: quiet_place_def)
  have p: "places_loop quiet_gmaps 0 [quiet_place] [] [] =
      Some ([CallPlace ''p1'' None, Sleep 2, CallPlace ''p1'' (Some ''tok1'')], Inr ([business_entry quiet_place], []), 2)"
    by (simp add: q quiet_fetch)
  show ?thesis by (simp add: collect_def r n p del: places_loop.simps)
qed

lemma busy_fetch:
  "fetch_reviews busy_gmaps ''p2'' ''Cafe B'' ''2 Main St'' 2 0 None [] [] =
       Some ([CallPlace ''p2'' None, Sleep 2, CallPlace ''p2'' (Some ''tok1'')],
             Inr [review_entry ''Cafe B'' ''2 Main St'' 2 review1, review_entry ''Cafe B'' ''2 Main St'' 2 review2],
             2)"
proof -
  have run: "page_run busy_gmaps ''p2'' 0 None [page1, page2]"
    by (simp add: busy_gmaps_def page1_def)
  have t1: "\<forall>d \<in> set (butlast [page1, page2]). truthy (next_page_token d)" by (simp add: page1_def)
  have t2: "\<not> truthy (next_page_token (last [page1, page2]))" by (simp add: page2_def)
  have ev: "page_events ''p2'' None [page1, page2] = [CallPlace ''p2'' None, Sleep 2, CallPlace ''p2'' (Some ''tok1'')]"
    by (simp add: page1_def)
  have rw: "page_rows ''Cafe B'' ''2 Main St'' 2 [page1, page2]
      = [review_entry ''Cafe B'' ''2 Main St'' 2 review1, review_entry ''Cafe B'' ''2 Main St'' 2 review2]"
    by (simp add: page_rows_def page_reviews_def page1_def page2_def)
  have ne: "[page1, page2] \<noteq> []" by simp
  from fetch_finite_run[OF ne run t1 t2, of "''Cafe B''" "''2 Main St''" 2 "[]" "[]"]
  show ?thesis by (simp only: ev rw) simp
qed

lemma busy_collect:
  "collect busy_gmaps loc bt =
     Some ([CallGeocode loc, CallPlacesNearby (19, 73) 2000 bt bt,
            CallPlace ''p2'' None, Sleep 2, CallPlace ''p2'' (Some ''tok1'')],
           Inr ([business_entry busy_place],
                [review_entry ''Cafe B'' ''2 Main St'' 2 review1, review_entry ''Cafe B'' ''2 Main St'' 2 review2]))"
proof -
  have r: "resolve_location busy_gmaps loc = ([CallGeocode loc], Inr (19, 73))"
    by (simp add: resolve_location_def busy_gmaps_def coordinates_def)
  have n: "places_nearby busy_gmaps (19, 73) 2000 bt bt = Inr \<lparr>results = Some [busy_place]\<rparr>"
    by (simp add: busy_gmaps_def)
  have q: "place_id busy_place = Some ''p2''" "get_default (name busy_place) ''N/A'' = ''Cafe B''"
    "get_default (vicinity busy_place) ''N/A'' = ''2 Main St''" "get_default (user_ratings_total busy_place) 0 = 2"
    by (simp_all add: busy_place_def)
  have p: "places_loop busy_gmaps 0 [busy_place] [] [] =
      Some ([CallPlace ''p2'' None, Sleep 2, CallPlace ''p2'' (Some ''tok1'')],
            Inr ([business_entry busy_place],
                 [review_entry ''Cafe B'' ''2 Main St'' 2 review1, review_entry ''Cafe B'' ''2 Main St'' 2 review2]), 2)"
    by (simp add: q busy_fetch)
  show ?thesis by (simp add: collect_def r n p del: places_loop.simps)
qed

lemma quiet_main:
  "main (world_of quiet_gmaps c) =
     Some \<lparr>trace = [Input ''Enter city/location (e.g., Mumbai CST): '',
                    Input ''Enter type of business (e.g., restaurant, electronics_store): '',
                    CallGeocode ''Mumbai CST'', CallPlacesNearby (19, 73) 2000 ''cafe'' ''cafe'',
                    CallPlace ''p1'' None, Sleep 2, CallPlace ''p1'' (Some ''tok1''),
                    WriteCsv ''competitor_data.csv'' (DataFrame [business_entry quiet_place]),
                    Print (CHR 0x0A # ''--- Competitor Data ---''),
                    PrintFrame (DataFrame [business_entry quiet_place]),
                    Print ([CHR 0x0A, CHR 0xE2, CHR 0x9C, CHR 0x85] @ '' Data saved to competitor_data.csv''),
                    Print (''An unexpected error occurred: '' @ rating_TypeError)],
           ending = Completed\<rparr>"
  by (simp add: main_def startup_world_of lib_world_of main_logic_def quiet_collect
        calm_save_unrated[OF _ quiet_unrated] guarded_def)

lemma rated_fetch:
  "fetch_reviews rated_gmaps ''p3'' ''Cafe C'' ''3 Main St'' 7 0 None [] [] =
       Some ([CallPlace ''p3'' None], Inr [], 1)"
proof -
  have c1: "place rated_gmaps 0 ''p3'' (if truthy None then None else None) = Inr (empty_page None)"
    by (simp add: rated_gmaps_def)
  have t1: "\<not> truthy (next_page_token (empty_page None))" by (simp add: empty_page_def)
  have r: "page_reviews (empty_page None) = []" by (simp add: page_reviews_def empty_page_def)
  show ?thesis by (simp add: fetch_last[OF c1 t1] r)
qed

lemma rated_collect:
  "collect rated_gmaps loc bt =
     Some ([CallGeocode loc, CallPlacesNearby (19, 73) 2000 bt bt, CallPlace ''p3'' None],
           Inr ([business_entry rated_place], []))"
proof -
  have r: "resolve_location rated_gmaps loc = ([CallGeocode loc], Inr (19, 73))"
    by (simp add: resolve_location_def rated_gmaps_def coordinates_def)
  have n: "places_nearby rated_gmaps (19, 73) 2000 bt bt = Inr \<lparr>results = Some [rated_place]\<rparr>"
    by (simp add: rated_gmaps_def)
  have q: "place_id rated_place = Some ''p3''" "get_default (name rated_place) ''N/A'' = ''Cafe C''"
    "get_default (vicinity rated_place) ''N/A'' = ''3 Main St''" "get_default (user_ratings_total rated_place) 0 = 7"
    by (simp_all add: rated_place_def)
  have p: "places_loop rated_gmaps 0 [rated_place] [] [] =
      Some ([CallPlace ''p3'' None], Inr ([business_entry rated_place], []), 1)"
    by (simp add: q rated_fetch)
  show ?thesis by (simp add: collect_def r n p del: places_loop.simps)
qed

lemma rated_main:
  "main (world_of rated_gmaps c) =
     Some \<lparr>trace = [Input ''Enter city/location (e.g., Mumbai CST): '',
                    Input ''Enter type of business (e.g., restaurant, electronics_store): '',
                    CallGeocode ''Mumbai CST'', CallPlacesNearby (19, 73) 2000 ''cafe'' ''cafe'',
                    CallPlace ''p3'' None,
                    WriteCsv ''competitor_data.csv'' (DataFrame [business_entry rated_place]),
                    Print (CHR 0x0A # ''--- Competitor Data ---''),
                    PrintFrame (DataFrame [business_entry rated_place]),
                    Print ([CHR 0x0A, CHR 0xE2, CHR 0x9C, CHR 0x85] @ '' Data saved to competitor_data.csv''),
                    ShowScatter (DataFrame [business_entry rated_place]),
                    Print ''No reviews found for these businesses.''],
           ending = Exit 1\<rparr>"
  by (simp add: main_def startup_world_of lib_world_of main_logic_def rated_collect
        calm_save[OF rated_rated] sentiment_empty guarded_def)

lemma nowhere_main:
  "main (world_of nowhere_gmaps c) =
     Some \<lparr>trace = [Input ''Enter city/location (e.g., Mumbai CST): '',
                    Input ''Enter type of business (e.g., restaurant, electronics_store): '',
                    CallGeocode ''Mumbai CST'', Print ''Location not found.''],
           ending = Exit 1\<rparr>"
proof -
  have "geocode nowhere_gmaps ''Mumbai CST'' = Inr []" by (simp add: nowhere_gmaps_def)
  from collect_exit_geocode[OF this, of "''cafe''"] show ?thesis
    by (simp add: main_def startup_world_of lib_world_of main_logic_def guarded_def)
qed

lemma eof_main:
  "main eof_world = Some \<lparr>trace = [Input ''Enter city/location (e.g., Mumbai CST): ''],
                           ending = Uncaught ''EOF when reading a line''\<rparr>"
  by (simp add: main_def startup_def eof_world_def world_of_def)

lemma set_unique: "set (unique xs) = set xs"
  by (simp add: unique_def)

lemma try_body_call: "CallGenerate (prompt r) \<in> set (fst (try_body c k r a))"
  by (auto simp: try_body_def Let_def split: sum.splits option.splits)

lemma retry_loop_call: "CallGenerate (prompt r) \<in> set (fst (retry_loop c k r a (Suc n)))"
proof -
  obtain tb rb where tb: "try_body c k r a = (tb, rb)" by (cases "try_body c k r a")
  with try_body_call[of r c k a] have m: "CallGenerate (prompt r) \<in> set tb" by simp
  obtain t2 r2 k2 where rl: "retry_loop c (Suc k) r (Suc a) n = (t2, r2, k2)"
    by (cases "retry_loop c (Suc k) r (Suc a) n")
  show ?thesis using tb rl m by (auto split: sum.splits option.splits exn.splits)
qed

lemma batch_loop_call: "CallGenerate (prompt r) \<in> set (fst (batch_loop c k (r # rs) (Suc n) acc))"
proof -
  obtain t1 r1 k1 where rl: "retry_loop c k r 0 (Suc n) = (t1, r1, k1)"
    by (cases "retry_loop c k r 0 (Suc n)")
  with retry_loop_call[of r c k 0 n] have m: "CallGenerate (prompt r) \<in> set t1" by simp
  show ?thesis
  proof (cases r1)
    case (Inl e)
    with rl m show ?thesis by simp
  next
    case (Inr v)
    obtain t2 r2 k2 where bl: "batch_loop c k1 rs (Suc n) (acc @ [v]) = (t2, r2, k2)"
      by (cases "batch_loop c k1 rs (Suc n) (acc @ [v])")
    with rl Inr m show ?thesis by simp
  qed
qed

lemma business_loop_call:
  assumes "x \<in> set df" "Business x = b"
  shows "\<exists>e \<in> set (fst (business_loop c k df (b # bs) acc)). is_CallGenerate e"
proof -
  let ?rs = "map Review (filter (\<lambda>r. Business r = b) df)"
  from assms have "?rs \<noteq> []" by (auto simp: filter_empty_conv)
  then obtain r rs where rs: "?rs = r # rs" by (cases ?rs) auto
  obtain t1 r1 k1 where an: "analyze_reviews_batch c k ?rs 3 = (t1, r1, k1)"
    by (cases "analyze_reviews_batch c k ?rs 3")
  from batch_loop_call[of r c k rs 2 "[]"] an rs have m: "CallGenerate (prompt r) \<in> set t1"
    by (simp add: analyze_reviews_batch_def numeral_3_eq_3)
  show ?thesis
  proof (cases r1)
    case (Inl e)
    with an m show ?thesis by (auto simp: Let_def intro!: bexI[of _ "CallGenerate (prompt r)"])
  next
    case (Inr vs)
    show ?thesis
    proof (cases "aspects_loop b vs acc")
      case (Inl e)
      with an Inr m show ?thesis by (auto simp: Let_def intro!: bexI[of _ "CallGenerate (prompt r)"])
    next
      case ok: (Inr acc')
      obtain t2 r2 k2 where bl: "business_loop c k1 df bs acc' = (t2, r2, k2)"
        by (cases "business_loop c k1 df bs acc'")
      with an Inr ok m show ?thesis by (auto simp: Let_def intro!: bexI[of _ "CallGenerate (prompt r)"])
    qed
  qed
qed

lemma sentiment_calls:
  assumes "rd \<noteq> []"
  shows "\<exists>e \<in> set (fst (sentiment_stage c lb rd)). is_CallGenerate e"
proof -
  from assms have "unique (map Business rd) \<noteq> []"
    using set_unique[of "map Business rd"] by (cases rd) auto
  then obtain b bs where u: "unique (map Business rd) = b # bs" by (cases "unique (map Business rd)") auto
  then have "b \<in> set (unique (map Business rd))" by simp
  then have "b \<in> set (map Business rd)" by (simp only: set_unique)
  then obtain x where x: "x \<in> set rd" "Business x = b" by auto
  from business_loop_call[OF x, of c 0 bs "[]"] obtain e where
    e: "e \<in> set (fst (business_loop c 0 rd (b # bs) []))" "is_CallGenerate e" by blast
  obtain t1 r1 k1 where bl: "business_loop c 0 rd (b # bs) [] = (t1, r1, k1)"
    by (cases "business_loop c 0 rd (b # bs) []")
  show ?thesis
  proof (cases r1)
    case (Inl ex)
    with assms u bl e show ?thesis by (auto simp: sentiment_stage_def simp del: business_loop.simps)
  next
    case (Inr rs)
    obtain t2 r2 where ar: "aspect_report lb rd rs = (t2, r2)" by (cases "aspect_report lb rd rs")
    with assms u bl Inr e show ?thesis by (auto simp: sentiment_stage_def simp del: business_loop.simps)
  qed
qed

lemma busy_main:
  "\<exists>out. main (world_of busy_gmaps c) = Some out \<and> (\<exists>e \<in> set (trace out). is_CallGenerate e)"
proof -
  let ?rd = "[review_entry ''Cafe B'' ''2 Main St'' 2 review1, review_entry ''Cafe B'' ''2 Main St'' 2 review2]"
  obtain trC r where st: "sentiment_stage c calm_lib ?rd = (trC, r)"
    by (cases "sentiment_stage c calm_lib ?rd")
  from sentiment_calls[of ?rd c calm_lib] st obtain e where e: "e \<in> set trC" "is_CallGenerate e" by auto
  let ?tr0 = "[Input ''Enter city/location (e.g., Mumbai CST): '',
               Input ''Enter type of business (e.g., restaurant, electronics_store): '']"
  have ml: "\<exists>tr. main_logic busy_gmaps c calm_lib ''Mumbai CST'' ''cafe'' = Some (tr, r) \<and> e \<in> set tr"
    using st e by (simp add: main_logic_def busy_collect calm_save[OF busy_rated])
  then obtain tr where tr: "main_logic busy_gmaps c calm_lib ''Mumbai CST'' ''cafe'' = Some (tr, r)" "e \<in> set tr"
    by blast
  from guarded_total[of ?tr0 "(tr, r)"] obtain out where out: "guarded ?tr0 (Some (tr, r)) = Some out" by blast
  from guarded_trace[OF out] tr(2) have "e \<in> set (trace out)" by auto
  moreover have "main (world_of busy_gmaps c) = Some out"
    using out tr(1) by (simp add: main_def startup_world_of lib_world_of)
  ultimately show ?thesis using e(2) by blast
qed

lemma main_logic_filters:
  assumes "main_logic g c lb loc bt = Some (tr, r)" "main_logic g c' lb' loc bt = Some (tr', r')"
    "to_csv lb' = to_csv lb" "scatter_plot lb' = scatter_plot lb"
  shows "filter is_WriteCsv tr' = filter is_WriteCsv tr \<and> filter is_ShowScatter tr' = filter is_ShowScatter tr"
proof -
  have sv: "\<And>bd. save_competitor_data lb' bd = save_competitor_data lb bd"
    by (rule save_cong[OF assms(3,4)])
  from main_logic_cases[OF assms(1)] show ?thesis
  proof (elim disjE exE conjE)
    fix e assume c: "collect g loc bt = Some (tr, Inl e)"
    with assms(2) have "tr' = tr" by (simp add: main_logic_def)
    then show ?thesis by simp
  next
    fix trA bd rd trB e
    assume c: "collect g loc bt = Some (trA, Inr (bd, rd))" and s: "save_competitor_data lb bd = (trB, Inl e)"
      and tr: "tr = trA @ trB"
    with assms(2) sv[of bd] have "tr' = trA @ trB" by (simp add: main_logic_def)
    with tr show ?thesis by simp
  next
    fix trA bd rd trB trC
    assume c: "collect g loc bt = Some (trA, Inr (bd, rd))" and s: "save_competitor_data lb bd = (trB, Inr ())"
      and st: "sentiment_stage c lb rd = (trC, r)" and tr: "tr = trA @ trB @ trC"
    obtain trC' r2 where st': "sentiment_stage c' lb' rd = (trC', r2)" by (cases "sentiment_stage c' lb' rd")
    with assms(2) c s sv[of bd] have tr': "tr' = trA @ trB @ trC'" by (simp add: main_logic_def)
    from sentiment_facts[OF st] have "\<forall>e \<in> set trC. late e" by simp
    from late_filter[OF this] have f: "filter is_WriteCsv trC = []" "filter is_ShowScatter trC = []" by simp_all
    from sentiment_facts[OF st'] have "\<forall>e \<in> set trC'. late e" by simp
    from late_filter[OF this] have f': "filter is_WriteCsv trC' = []" "filter is_ShowScatter trC' = []" by simp_all
    from tr tr' f f' show ?thesis by simp
  qed
qed

lemma main_split:
  assumes "main w = Some out"
  shows "\<exists>pre post. trace out = pre @ post \<and> (\<forall>e \<in> set pre. \<not> is_CallGenerate e) \<and> (\<forall>e \<in> set post. late e)
     \<and> ((\<exists>e \<in> set post. is_CallGenerate e)
          \<longrightarrow> length (filter is_WriteCsv pre) = 1 \<and> length (filter is_ShowScatter pre) = 1)"
proof -
  obtain tr0 s where st: "startup w = (tr0, s)" by (cases "startup w")
  have e0: "\<forall>e \<in> set tr0. early e \<and> late e \<and> \<not> is_CallGenerate e" using startup_events[of _ w] st by auto
  show ?thesis
  proof (cases s)
    case (Inl e)
    with st assms have "trace out = tr0" by (auto simp: main_def)
    then show ?thesis using e0 by (intro exI[of _ tr0] exI[of _ "[]"]) simp
  next
    case (Inr x)
    obtain g c loc bt where x: "x = (g, c, loc, bt)" by (cases x)
    from st Inr x have ok: "startup w = (tr0, Inr (g, c, loc, bt))" by simp
    from assms ok have gd: "guarded tr0 (main_logic g c (lib w) loc bt) = Some out" by (simp add: main_def)
    from guarded_None[OF gd] obtain tr r where ml: "main_logic g c (lib w) loc bt = Some (tr, r)" by blast
    from gd ml guarded_trace[of tr0 tr r out] obtain post where
      tro: "trace out = tr0 @ tr @ post" and po: "\<forall>e \<in> set post. late e \<and> early e" by auto
    from main_logic_split[OF ml] obtain pre post' where
      sp: "tr = pre @ post'" "\<forall>e \<in> set pre. \<not> is_CallGenerate e" "\<forall>e \<in> set post'. late e"
        "post' \<noteq> [] \<longrightarrow> length (filter is_WriteCsv pre) = 1 \<and> length (filter is_ShowScatter pre) = 1"
      by blast
    have f0: "filter is_WriteCsv tr0 = []" "filter is_ShowScatter tr0 = []"
      using early_filter[of tr0] e0 by simp_all
    have a: "trace out = (tr0 @ pre) @ (post' @ post)" using tro sp(1) by simp
    have b: "\<forall>e \<in> set (tr0 @ pre). \<not> is_CallGenerate e" using e0 sp(2) by auto
    have c: "\<forall>e \<in> set (post' @ post). late e" using sp(3) po by auto
    have d: "(\<exists>e \<in> set (post' @ post). is_CallGenerate e)
          \<longrightarrow> length (filter is_WriteCsv (tr0 @ pre)) = 1 \<and> length (filter is_ShowScatter (tr0 @ pre)) = 1"
    proof
      assume "\<exists>e \<in> set (post' @ post). is_CallGenerate e"
      then obtain e where e: "e \<in> set (post' @ post)" "is_CallGenerate e" by blast
      with po have "e \<in> set post'" by (auto simp: early_def)
      then have "post' \<noteq> []" by auto
      with sp(4) f0 show "length (filter is_WriteCsv (tr0 @ pre)) = 1 \<and> length (filter is_ShowScatter (tr0 @ pre)) = 1"
        by simp
    qed
    from a b c d show ?thesis by blast
  qed
qed

lemma attempt_fails_parsed: "attempt_fails c k r = (parsed_answer c k r = None)"
  by (auto simp: attempt_fails_def parsed_answer_def split: sum.splits option.splits)

lemma try_body_success:
  "parsed_answer c k r = Some v \<Longrightarrow> try_body c k r a = ([CallGenerate (prompt r)], Inr (Some v))"
  by (auto simp: parsed_answer_def try_body_def Let_def split: sum.splits option.splits if_splits)

lemma retry_first_success:
  "j < n \<Longrightarrow> \<forall>m<j. attempt_fails c (k + m) r \<Longrightarrow> parsed_answer c (k + j) r = Some v \<Longrightarrow>
   fst (snd (retry_loop c k r a n)) = Inr v \<and> snd (snd (retry_loop c k r a n)) = k + j + 1"
proof (induction j arbitrary: k a n)
  case 0
  then obtain n' where n: "n = Suc n'" by (cases n) auto
  from 0 have "parsed_answer c k r = Some v" by simp
  from try_body_success[OF this, of a] n show ?case by simp
next
  case (Suc j)
  then obtain n' where n: "n = Suc n'" by (cases n) auto
  with Suc.prems have j: "j < n'" by simp
  from Suc.prems(2) have f0: "attempt_fails c k r" by (metis add.right_neutral zero_less_Suc)
  have fs: "\<forall>m<j. attempt_fails c (Suc k + m) r"
    using Suc.prems(2) by (metis Suc_less_eq add_Suc_right add_Suc)
  have pa: "parsed_answer c (Suc k + j) r = Some v" using Suc.prems(3) by simp
  obtain tb rb where tb: "try_body c k r a = (tb, rb)" by (cases "try_body c k r a")
  obtain t2 r2 k2 where rl: "retry_loop c (Suc k) r (Suc a) n' = (t2, r2, k2)"
    by (cases "retry_loop c (Suc k) r (Suc a) n'")
  from Suc.IH[OF j fs pa, of "Suc a"] rl have ih: "r2 = Inr v" "k2 = Suc k + j + 1" by simp_all
  show ?case using n tb rl ih try_body_no_exit[of c k r a tb] try_body_fails[OF f0, of a tb]
    by (auto split: sum.splits option.splits exn.splits)
qed

lemma batch_loop_counter_step:
  "i < length rs \<Longrightarrow>
   snd (snd (batch_loop c k (take (Suc i) rs) n acc))
     = snd (snd (retry_loop c (snd (snd (batch_loop c k (take i rs) n acc))) (rs ! i) 0 n))"
proof (induction rs arbitrary: i k acc)
  case Nil
  then show ?case by simp
next
  case (Cons r rs)
  obtain t1 r1 k1 where rl: "retry_loop c k r 0 n = (t1, r1, k1)" by (cases "retry_loop c k r 0 n")
  from retry_loop_Inr[of c k r 0 n] rl obtain v where v: "r1 = Inr v" by auto
  show ?case
  proof (cases i)
    case 0
    then show ?thesis using rl v by simp
  next
    case (Suc i')
    with Cons.prems have i': "i' < length rs" by simp
    obtain ta ra ka where a: "batch_loop c k1 (take (Suc i') rs) n (acc @ [v]) = (ta, ra, ka)"
      by (cases "batch_loop c k1 (take (Suc i') rs) n (acc @ [v])")
    obtain tb rb kb where b: "batch_loop c k1 (take i' rs) n (acc @ [v]) = (tb, rb, kb)"
      by (cases "batch_loop c k1 (take i' rs) n (acc @ [v])")
    from Cons.IH[OF i', of k1 "acc @ [v]"] a b
    have "ka = snd (snd (retry_loop c kb (rs ! i') 0 n))" by simp
    with Suc rl v a b show ?thesis by simp
  qed
qed



section \<open>The claims\<close>

subsection \<open>C1: bounded retries of the extraction\<close>

text \<open>
  Claim C1. For every review text and wherever in the run its extraction starts, the
  retry loop with the default of 3 retries issues at most 3 completion calls; its result
  is always a value, never an escaping exception; and when each of the 3 attempts
  raises, has no or only blank text, or has text that does not parse, the value is the
  empty mapping. The whole stage, on any list of reviews, returns a list and no
  exception, with at most 3 calls per review.
\<close>

theorem extraction_attempts_bounded:
  "length (filter is_CallGenerate (fst (retry_loop client k review_text 0 3))) \<le> 3
   \<and> (\<exists>v. fst (snd (retry_loop client k review_text 0 3)) = Inr v)
   \<and> ((\<forall>i<3. attempt_fails client (k + i) review_text)
        \<longrightarrow> fst (snd (retry_loop client k review_text 0 3)) = Inr (JObj []))
   \<and> (\<exists>tr vs k'. analyze_reviews_batch client k review_texts 3 = (tr, Inr vs, k'))
   \<and> length (filter is_CallGenerate (fst (analyze_reviews_batch client k review_texts 3)))
        \<le> 3 * length review_texts"
proof (intro conjI)
  obtain tr res k' where rl: "retry_loop client k review_text 0 3 = (tr, res, k')"
    by (cases "retry_loop client k review_text 0 3")
  from retry_loop_calls[OF rl] show "length (filter is_CallGenerate (fst (retry_loop client k review_text 0 3))) \<le> 3"
    using rl by simp
  show "\<exists>v. fst (snd (retry_loop client k review_text 0 3)) = Inr v"
    by (rule retry_loop_Inr)
  show "(\<forall>i<3. attempt_fails client (k + i) review_text)
        \<longrightarrow> fst (snd (retry_loop client k review_text 0 3)) = Inr (JObj [])"
    using retry_loop_all_fail[of 3 client k review_text 0] by blast
  obtain tb rb kb where bl: "batch_loop client k review_texts 3 [] = (tb, rb, kb)"
    by (cases "batch_loop client k review_texts 3 []")
  from batch_loop_Inr[of client k review_texts 3 "[]"] bl obtain vs where "rb = Inr vs" by auto
  with bl show "\<exists>tr vs k'. analyze_reviews_batch client k review_texts 3 = (tr, Inr vs, k')"
    by (simp add: analyze_reviews_batch_def)
  from batch_loop_calls[OF bl]
  show "length (filter is_CallGenerate (fst (analyze_reviews_batch client k review_texts 3)))
        \<le> 3 * length review_texts"
    using bl by (simp add: analyze_reviews_batch_def)
qed

text \<open>
  A client whose first call raises, whose second answers blank text and whose third
  answers text that does not parse: the review gets the empty mapping.
\<close>

theorem extraction_attempts_bounded_witness:
  "attempt_fails failing_client 0 ''great food''
   \<and> attempt_fails failing_client 1 ''great food''
   \<and> attempt_fails failing_client 2 ''great food''
   \<and> fst (snd (retry_loop failing_client 0 ''great food'' 0 3)) = Inr (JObj [])"
proof -
  have f: "attempt_fails failing_client 0 ''great food''"
          "attempt_fails failing_client 1 ''great food''"
          "attempt_fails failing_client 2 ''great food''"
    by (simp_all add: attempt_fails_def failing_client_def strip_blank strip_not_json sample_reply_other)
  then have h: "\<forall>i<3. attempt_fails failing_client (0 + i) ''great food''"
    by (simp add: all_less_3)
  from extraction_attempts_bounded[of failing_client 0 "''great food''" "[]"] h
  have "fst (snd (retry_loop failing_client 0 ''great food'' 0 3)) = Inr (JObj [])"
    by (elim conjE impE)
  with f show ?thesis by (intro conjI)
qed

subsection \<open>C2: the two skipped reporting steps\<close>

text \<open>
  Claim C2 as stated fails on its first half. With one rated place and no review at
  all, the run writes the file, shows the scatter plot, prints that no reviews were
  found and then ends through \<^verbatim>\<open>sys.exit(1)\<close> (line 147): the exit status is 1, so
  the run does fail.
\<close>

theorem no_reviews_exits_one:
  "main (world_of rated_gmaps raising_client) =
     Some \<lparr>trace = [Input ''Enter city/location (e.g., Mumbai CST): '',
                    Input ''Enter type of business (e.g., restaurant, electronics_store): '',
                    CallGeocode ''Mumbai CST'', CallPlacesNearby (19, 73) 2000 ''cafe'' ''cafe'',
                    CallPlace ''p3'' None,
                    WriteCsv ''competitor_data.csv'' (DataFrame [business_entry rated_place]),
                    Print (CHR 0x0A # ''--- Competitor Data ---''),
                    PrintFrame (DataFrame [business_entry rated_place]),
                    Print ([CHR 0x0A, CHR 0xE2, CHR 0x9C, CHR 0x85] @ '' Data saved to competitor_data.csv''),
                    ShowScatter (DataFrame [business_entry rated_place]),
                    Print ''No reviews found for these businesses.''],
           ending = Exit 1\<rparr>
   \<and> exit_status (Exit 1) \<noteq> 0
   \<and> rating rated_place = Some 4"
  by (simp add: rated_main) (simp add: rated_place_def)

text \<open>
  Claim C2, amended. When the collection ends with no review and the file and the
  scatter plot went through, the run prints \<^verbatim>\<open>No reviews found for these businesses.\<close>
  and exits with status 1, without any extraction. When there are reviews but the
  extraction produces no aspect row, the run prints \<^verbatim>\<open>No aspect sentiment detected.\<close>,
  shows no summary and no bar plot, and ends normally. No aspect row is produced, in
  particular, when every extraction attempt fails.
\<close>

theorem skipped_reporting:
  "(startup w = (tr0, Inr (g, c, loc, bt)) \<and> collect g loc bt = Some (tr1, Inr (bd, []))
      \<and> save_competitor_data (lib w) bd = (tr2, Inr ())
     \<longrightarrow> main w = Some \<lparr>trace = tr0 @ tr1 @ tr2 @ [Print ''No reviews found for these businesses.''],
                         ending = Exit 1\<rparr>)
   \<and> (startup w = (tr0, Inr (g, c, loc, bt)) \<and> collect g loc bt = Some (tr1, Inr (bd, rd)) \<and> rd \<noteq> []
      \<and> save_competitor_data (lib w) bd = (tr2, Inr ())
      \<and> business_loop c 0 rd (unique (map Business rd)) [] = (tr3, Inr [], k)
     \<longrightarrow> main w = Some \<lparr>trace = tr0 @ tr1 @ tr2
                                @ [Print (CHR 0x0A # ''Running Aspect-Based Sentiment Analysis using Gemini API...'')]
                                @ tr3 @ [Print ''No aspect sentiment detected.''],
                         ending = Completed\<rparr>)
   \<and> ((\<forall>j r. attempt_fails c j r)
     \<longrightarrow> fst (snd (business_loop c 0 rd (unique (map Business rd)) [])) = Inr [])"
proof (intro conjI impI)
  assume "startup w = (tr0, Inr (g, c, loc, bt)) \<and> collect g loc bt = Some (tr1, Inr (bd, []))
      \<and> save_competitor_data (lib w) bd = (tr2, Inr ())"
  then show "main w = Some \<lparr>trace = tr0 @ tr1 @ tr2 @ [Print ''No reviews found for these businesses.''],
                         ending = Exit 1\<rparr>"
    by (simp add: main_def main_logic_def sentiment_empty guarded_def)
next
  assume a: "startup w = (tr0, Inr (g, c, loc, bt)) \<and> collect g loc bt = Some (tr1, Inr (bd, rd)) \<and> rd \<noteq> []
      \<and> save_competitor_data (lib w) bd = (tr2, Inr ())
      \<and> business_loop c 0 rd (unique (map Business rd)) [] = (tr3, Inr [], k)"
  then have "sentiment_stage c (lib w) rd =
      ([Print (CHR 0x0A # ''Running Aspect-Based Sentiment Analysis using Gemini API...'')]
         @ tr3 @ [Print ''No aspect sentiment detected.''], Inr ())"
    by (simp add: sentiment_stage_def aspect_report_def)
  with a show "main w = Some \<lparr>trace = tr0 @ tr1 @ tr2
                                @ [Print (CHR 0x0A # ''Running Aspect-Based Sentiment Analysis using Gemini API...'')]
                                @ tr3 @ [Print ''No aspect sentiment detected.''],
                         ending = Completed\<rparr>"
    by (simp add: main_def main_logic_def guarded_def)
next
  assume "\<forall>j r. attempt_fails c j r"
  then show "fst (snd (business_loop c 0 rd (unique (map Business rd)) [])) = Inr []"
    by (rule business_loop_all_fail)
qed

text \<open>
  The rated place without reviews, and a place with two reviews met by a completion
  service that always raises.
\<close>

theorem skipped_reporting_witness:
  "(\<exists>tr. main (world_of rated_gmaps raising_client) = Some \<lparr>trace = tr, ending = Exit 1\<rparr>
          \<and> last tr = Print ''No reviews found for these businesses.'')
   \<and> (\<exists>tr. main (world_of busy_gmaps raising_client) = Some \<lparr>trace = tr, ending = Completed\<rparr>
          \<and> last tr = Print ''No aspect sentiment detected.'')"
proof -
  let ?tr0 = "[Input ''Enter city/location (e.g., Mumbai CST): '',
               Input ''Enter type of business (e.g., restaurant, electronics_store): '']"
  let ?q1 = "[CallGeocode ''Mumbai CST'', CallPlacesNearby (19, 73) 2000 ''cafe'' ''cafe'',
            CallPlace ''p3'' None]"
  let ?b1 = "[CallGeocode ''Mumbai CST'', CallPlacesNearby (19, 73) 2000 ''cafe'' ''cafe'',
            CallPlace ''p2'' None, Sleep 2, CallPlace ''p2'' (Some ''tok1'')]"
  let ?rd = "[review_entry ''Cafe B'' ''2 Main St'' 2 review1, review_entry ''Cafe B'' ''2 Main St'' 2 review2]"
  obtain tr2q where sq: "save_competitor_data calm_lib [business_entry rated_place] = (tr2q, Inr ())"
    by (simp add: calm_save[OF rated_rated])
  obtain tr2b where sb: "save_competitor_data calm_lib [business_entry busy_place] = (tr2b, Inr ())"
    by (simp add: calm_save[OF busy_rated])
  have hq: "startup (world_of rated_gmaps raising_client) = (?tr0, Inr (rated_gmaps, raising_client, ''Mumbai CST'', ''cafe''))
      \<and> collect rated_gmaps ''Mumbai CST'' ''cafe'' = Some (?q1, Inr ([business_entry rated_place], []))
      \<and> save_competitor_data (lib (world_of rated_gmaps raising_client)) [business_entry rated_place] = (tr2q, Inr ())"
    by (simp add: startup_world_of lib_world_of rated_collect sq)
  have a: "main (world_of rated_gmaps raising_client)
      = Some \<lparr>trace = ?tr0 @ ?q1 @ tr2q @ [Print ''No reviews found for these businesses.''], ending = Exit 1\<rparr>"
    by (rule skipped_reporting[THEN conjunct1, THEN mp, OF hq])
  obtain tr3 r3 k3 where bl: "business_loop raising_client 0 ?rd (unique (map Business ?rd)) [] = (tr3, r3, k3)"
    by (cases "business_loop raising_client 0 ?rd (unique (map Business ?rd)) []")
  have "fst (snd (business_loop raising_client 0 ?rd (unique (map Business ?rd)) [])) = Inr []"
    by (rule skipped_reporting[THEN conjunct2, THEN conjunct2, THEN mp]) (simp add: raising_fails)
  with bl have r3: "r3 = Inr []" by simp
  have hb: "startup (world_of busy_gmaps raising_client) = (?tr0, Inr (busy_gmaps, raising_client, ''Mumbai CST'', ''cafe''))
      \<and> collect busy_gmaps ''Mumbai CST'' ''cafe'' = Some (?b1, Inr ([business_entry busy_place], ?rd))
      \<and> ?rd \<noteq> []
      \<and> save_competitor_data (lib (world_of busy_gmaps raising_client)) [business_entry busy_place] = (tr2b, Inr ())
      \<and> business_loop raising_client 0 ?rd (unique (map Business ?rd)) [] = (tr3, Inr [], k3)"
    using bl r3 by (simp add: startup_world_of lib_world_of busy_collect sb)
  have b: "main (world_of busy_gmaps raising_client)
      = Some \<lparr>trace = ?tr0 @ ?b1 @ tr2b
                                @ [Print (CHR 0x0A # ''Running Aspect-Based Sentiment Analysis using Gemini API...'')]
                                @ tr3 @ [Print ''No aspect sentiment detected.''],
                         ending = Completed\<rparr>"
    by (rule skipped_reporting[THEN conjunct2, THEN conjunct1, THEN mp, OF hb])
  have "\<exists>tr. main (world_of rated_gmaps raising_client) = Some \<lparr>trace = tr, ending = Exit 1\<rparr>
          \<and> last tr = Print ''No reviews found for these businesses.''"
    using a by (intro exI[of _ "?tr0 @ ?q1 @ tr2q @ [Print ''No reviews found for these businesses.'']"]) simp
  moreover have "\<exists>tr. main (world_of busy_gmaps raising_client) = Some \<lparr>trace = tr, ending = Completed\<rparr>
          \<and> last tr = Print ''No aspect sentiment detected.''"
    using b by (intro exI[of _ "?tr0 @ ?b1 @ tr2b
                                @ [Print (CHR 0x0A # ''Running Aspect-Based Sentiment Analysis using Gemini API...'')]
                                @ tr3 @ [Print ''No aspect sentiment detected.'']"]) simp
  ultimately show ?thesis by (rule conjI)
qed

subsection \<open>C3: the exit status\<close>

text \<open>
  Claim C3 as stated fails. Lines 18 to 23 are outside the \<^verbatim>\<open>try\<close>: when the first
  \<^verbatim>\<open>input()\<close> raises at the end of the input, nothing catches it and the process ends
  with status 1, although both credentials are set and no geocode, place search or
  review collection has taken place.
\<close>

theorem uncaught_startup_error:
  "main eof_world = Some \<lparr>trace = [Input ''Enter city/location (e.g., Mumbai CST): ''],
                           ending = Uncaught ''EOF when reading a line''\<rparr>
   \<and> exit_status (Uncaught ''EOF when reading a line'') = 1
   \<and> truthy (GOOGLE_MAPS_API_KEY eof_world) \<and> truthy (GEMINI_API_KEY eof_world)"
  by (simp add: eof_main) (simp add: eof_world_def world_of_def)

text \<open>
  Claim C3, amended. A run that ends has a non-zero status exactly when a credential
  is missing, or an error raised before the \<^verbatim>\<open>try\<close> (building a client, reading an
  input) was left uncaught, or the geocode result is empty, or the place search result
  is empty, or the review set is empty once the file and the scatter plot went through.
  The status is then 1. Any \<^verbatim>\<open>Exception\<close> raised inside the \<^verbatim>\<open>try\<close> is caught by the one
  handler, which prints it and lets the script end with status 0, as does a run that
  reaches the end.
\<close>

theorem exit_status_cases:
  assumes "main w = Some out"
  shows "((exit_status (ending out) \<noteq> 0) =
            (\<not> truthy (GOOGLE_MAPS_API_KEY w) \<or> \<not> truthy (GEMINI_API_KEY w)
             \<or> (\<exists>tr0 msg. startup w = (tr0, Inl (Uncaught msg)))
             \<or> (\<exists>tr0 g c loc bt. startup w = (tr0, Inr (g, c, loc, bt)) \<and>
                  (geocode g loc = Inr []
                   \<or> (\<exists>latlng resp. snd (resolve_location g loc) = Inr latlng
                         \<and> places_nearby g latlng 2000 bt bt = Inr resp \<and> get_default (results resp) [] = [])
                   \<or> (\<exists>trA bd. collect g loc bt = Some (trA, Inr (bd, []))
                         \<and> snd (save_competitor_data (lib w) bd) = Inr ())))))
       \<and> exit_status (ending out) \<le> 1
       \<and> (\<forall>tr0 g c loc bt tr msg.
             startup w = (tr0, Inr (g, c, loc, bt))
             \<and> main_logic g c (lib w) loc bt = Some (tr, Inl (Exception msg))
            \<longrightarrow> out = \<lparr>trace = tr0 @ tr @ [Print (''An unexpected error occurred: '' @ msg)],
                       ending = Completed\<rparr>)
       \<and> (\<forall>tr0 g c loc bt tr.
             startup w = (tr0, Inr (g, c, loc, bt)) \<and> main_logic g c (lib w) loc bt = Some (tr, Inr ())
            \<longrightarrow> out = \<lparr>trace = tr0 @ tr, ending = Completed\<rparr>)"
proof -
  obtain tr0 s where st: "startup w = (tr0, s)" by (cases "startup w")
  show ?thesis
  proof (cases s)
    case (Inl e)
    with st assms have out: "out = \<lparr>trace = tr0, ending = e\<rparr>" by (simp add: main_def)
    from startup_fail[of w tr0 e] st Inl have
      "(e = Exit 1 \<and> (\<not> truthy (GOOGLE_MAPS_API_KEY w) \<or> \<not> truthy (GEMINI_API_KEY w)))
       \<or> ((\<exists>msg. e = Uncaught msg) \<and> truthy (GOOGLE_MAPS_API_KEY w) \<and> truthy (GEMINI_API_KEY w))" by simp
    then show ?thesis
    proof
      assume "e = Exit 1 \<and> (\<not> truthy (GOOGLE_MAPS_API_KEY w) \<or> \<not> truthy (GEMINI_API_KEY w))"
      with out st Inl show ?thesis by auto
    next
      assume "(\<exists>msg. e = Uncaught msg) \<and> truthy (GOOGLE_MAPS_API_KEY w) \<and> truthy (GEMINI_API_KEY w)"
      with out st Inl show ?thesis by auto
    qed
  next
    case (Inr x)
    obtain g c loc bt where x: "x = (g, c, loc, bt)" by (cases x)
    from st Inr x have ok: "startup w = (tr0, Inr (g, c, loc, bt))" by simp
    from startup_ok[OF ok] have keys: "truthy (GOOGLE_MAPS_API_KEY w)" "truthy (GEMINI_API_KEY w)" by simp_all
    from assms ok have gd: "guarded tr0 (main_logic g c (lib w) loc bt) = Some out" by (simp add: main_def)
    from guarded_None[OF gd] obtain tr r where ml: "main_logic g c (lib w) loc bt = Some (tr, r)" by blast
    from main_logic_exit[OF ml] have
      ex: "(\<exists>n. r = Inl (SystemExit n)) =
            (geocode g loc = Inr []
             \<or> (\<exists>latlng resp. snd (resolve_location g loc) = Inr latlng
                   \<and> places_nearby g latlng 2000 bt bt = Inr resp \<and> get_default (results resp) [] = [])
             \<or> (\<exists>trA bd. collect g loc bt = Some (trA, Inr (bd, []))
                   \<and> snd (save_competitor_data (lib w) bd) = Inr ()))"
      and one: "\<forall>n. r = Inl (SystemExit n) \<longrightarrow> n = 1" by blast+
    from gd ml guarded_Some[of tr0 tr r out] have
      cs: "(\<exists>n. r = Inl (SystemExit n) \<and> out = \<lparr>trace = tr0 @ tr, ending = Exit n\<rparr>)
         \<or> (\<exists>msg. r = Inl (Exception msg)
               \<and> out = \<lparr>trace = tr0 @ tr @ [Print (''An unexpected error occurred: '' @ msg)], ending = Completed\<rparr>)
         \<or> (r = Inr () \<and> out = \<lparr>trace = tr0 @ tr, ending = Completed\<rparr>)" by simp
    have status: "(exit_status (ending out) \<noteq> 0) = (\<exists>n. r = Inl (SystemExit n))"
      using cs one by auto
    have le: "exit_status (ending out) \<le> 1" using cs one by auto
    have h1: "\<forall>tr0' g' c' loc' bt' tr' msg.
             startup w = (tr0', Inr (g', c', loc', bt'))
             \<and> main_logic g' c' (lib w) loc' bt' = Some (tr', Inl (Exception msg))
            \<longrightarrow> out = \<lparr>trace = tr0' @ tr' @ [Print (''An unexpected error occurred: '' @ msg)],
                       ending = Completed\<rparr>"
      using ok ml cs by auto
    have h2: "\<forall>tr0' g' c' loc' bt' tr'.
             startup w = (tr0', Inr (g', c', loc', bt')) \<and> main_logic g' c' (lib w) loc' bt' = Some (tr', Inr ())
            \<longrightarrow> out = \<lparr>trace = tr0' @ tr', ending = Completed\<rparr>"
      using ok ml cs by auto
    have rhs: "(\<not> truthy (GOOGLE_MAPS_API_KEY w) \<or> \<not> truthy (GEMINI_API_KEY w)
             \<or> (\<exists>tr0 msg. startup w = (tr0, Inl (Uncaught msg)))
             \<or> (\<exists>tr0 g c loc bt. startup w = (tr0, Inr (g, c, loc, bt)) \<and>
                  (geocode g loc = Inr []
                   \<or> (\<exists>latlng resp. snd (resolve_location g loc) = Inr latlng
                         \<and> places_nearby g latlng 2000 bt bt = Inr resp \<and> get_default (results resp) [] = [])
                   \<or> (\<exists>trA bd. collect g loc bt = Some (trA, Inr (bd, []))
                         \<and> snd (save_competitor_data (lib w) bd) = Inr ()))))
          = (\<exists>n. r = Inl (SystemExit n))"
      using keys ok by (simp add: ex)
    from status rhs le h1 h2 show ?thesis by simp
  qed
qed

text \<open>
  The run with one rated place and no review ends with a non-zero status.
\<close>

theorem exit_status_cases_witness:
  "\<exists>out. main (world_of rated_gmaps raising_client) = Some out \<and> exit_status (ending out) \<noteq> 0"
proof -
  let ?w = "world_of rated_gmaps raising_client"
  obtain out where m: "main ?w = Some out" by (simp add: rated_main)
  have c: "\<exists>tr0 g c loc bt. startup ?w = (tr0, Inr (g, c, loc, bt)) \<and>
                  (geocode g loc = Inr []
                   \<or> (\<exists>latlng resp. snd (resolve_location g loc) = Inr latlng
                         \<and> places_nearby g latlng 2000 bt bt = Inr resp \<and> get_default (results resp) [] = [])
                   \<or> (\<exists>trA bd. collect g loc bt = Some (trA, Inr (bd, []))
                         \<and> snd (save_competitor_data (lib ?w) bd) = Inr ()))"
    by (simp add: startup_world_of lib_world_of rated_collect calm_save[OF rated_rated])
  from exit_status_cases[OF m, THEN conjunct1] c have "exit_status (ending out) \<noteq> 0" by blast
  with m show ?thesis by blast
qed

subsection \<open>C4: the percentage table\<close>

text \<open>
  Claim C4. For every (business, aspect) pair with a total count T > 0 of recorded
  sentiment labels, the pair has a row in the percentage table, every cell of that row
  is the count of its label divided by T, times 100, and the row sums to exactly 100.
  The numbers are rationals: the rounding of floating point is not part of the model.
\<close>

theorem percentages_sum_to_100:
  assumes "0 < length (filter (\<lambda>r. pair_of r = key) (recorded aspect_results))"
  shows "key \<in> set (ct_index (aspect_summary_percent aspect_results))
     \<and> (\<exists>row. ct_row (aspect_summary_percent aspect_results) key = Some row
           \<and> sum_list row = 100
           \<and> (\<forall>label \<in> set (ct_columns (aspect_summary_percent aspect_results)).
                ct_cell (aspect_summary_percent aspect_results) key label
                  = Some (of_nat (group_size aspect_results key label)
                           / of_nat (length (filter (\<lambda>r. pair_of r = key) (recorded aspect_results))) * 100)))"
proof -
  let ?T = "length (filter (\<lambda>r. pair_of r = key) (recorded aspect_results))"
  let ?cols = "remdups (map Sentiment (recorded aspect_results))"
  let ?f = "\<lambda>label. (of_nat (group_size aspect_results key label) :: rat) / of_nat ?T * 100"
  from assms have "filter (\<lambda>r. pair_of r = key) (recorded aspect_results) \<noteq> []" by simp
  then have "\<exists>r \<in> set (recorded aspect_results). pair_of r = key"
    by (simp add: filter_empty_conv)
  then have mem: "key \<in> set (map pair_of (recorded aspect_results))" by auto
  then have idx: "key \<in> set (ct_index (aspect_summary_percent aspect_results))"
    by (simp only: percent_index set_remdups)
  have row: "ct_row (aspect_summary_percent aspect_results) key = Some (map ?f ?cols)"
    by (rule percent_row[OF mem])
  have "sum_list (map ?f ?cols) = sum_list (map (\<lambda>label. (of_nat (group_size aspect_results key label) :: rat)) ?cols)
           / of_nat ?T * 100"
    by (rule scaled_sum)
  also have "\<dots> = of_nat ?T / of_nat ?T * 100" by (simp only: row_total)
  also have "\<dots> = 100" using assms by simp
  finally have total: "sum_list (map ?f ?cols) = 100" .
  have cells: "\<forall>label \<in> set (ct_columns (aspect_summary_percent aspect_results)).
      ct_cell (aspect_summary_percent aspect_results) key label = Some (?f label)"
  proof
    fix label assume "label \<in> set (ct_columns (aspect_summary_percent aspect_results))"
    then have "label \<in> set (map Sentiment (recorded aspect_results))"
      by (simp only: percent_columns set_remdups)
    then show "ct_cell (aspect_summary_percent aspect_results) key label = Some (?f label)"
      by (rule percent_cell[OF mem])
  qed
  show ?thesis
  proof (intro conjI exI[of _ "map ?f ?cols"])
    show "key \<in> set (ct_index (aspect_summary_percent aspect_results))" by (rule idx)
    show "ct_row (aspect_summary_percent aspect_results) key = Some (map ?f ?cols)" by (rule row)
    show "sum_list (map ?f ?cols) = 100" by (rule total)
    show "\<forall>label \<in> set (ct_columns (aspect_summary_percent aspect_results)).
      ct_cell (aspect_summary_percent aspect_results) key label = Some (?f label)" by (rule cells)
  qed
qed

text \<open>
  Three labels for one pair, two of them positive: the row sums to 100 and the positive
  cell is 200/3.
\<close>

theorem percentages_sum_to_100_witness:
  "0 < length (filter (\<lambda>r. pair_of r = (''Cafe A'', ''service'')) (recorded sample_aspects))
   \<and> (\<exists>row. ct_row (aspect_summary_percent sample_aspects) (''Cafe A'', ''service'') = Some row
          \<and> sum_list row = 100)
   \<and> ct_cell (aspect_summary_percent sample_aspects) (''Cafe A'', ''service'') (JStr ''positive'')
        = Some (200 / 3)"
proof -
  have h: "0 < length (filter (\<lambda>r. pair_of r = (''Cafe A'', ''service'')) (recorded sample_aspects))"
    by (simp add: sample_recorded) (simp add: sample_aspects_def pair_of_def)
  have c: "JStr ''positive'' \<in> set (ct_columns (aspect_summary_percent sample_aspects))"
    by (simp add: percent_columns sample_recorded) (simp add: sample_aspects_def)
  have t: "length (filter (\<lambda>r. pair_of r = (''Cafe A'', ''service'')) (recorded sample_aspects)) = 3"
    by (simp add: sample_recorded) (simp add: sample_aspects_def pair_of_def)
  have g: "group_size sample_aspects (''Cafe A'', ''service'') (JStr ''positive'') = 2"
    by (simp add: group_size_def sample_recorded) (simp add: sample_aspects_def pair_of_def)
  from percentages_sum_to_100[OF h] have
    "\<exists>row. ct_row (aspect_summary_percent sample_aspects) (''Cafe A'', ''service'') = Some row
           \<and> sum_list row = 100
           \<and> (\<forall>label \<in> set (ct_columns (aspect_summary_percent sample_aspects)).
                ct_cell (aspect_summary_percent sample_aspects) (''Cafe A'', ''service'') label
                  = Some (of_nat (group_size sample_aspects (''Cafe A'', ''service'') label)
                           / of_nat (length (filter (\<lambda>r. pair_of r = (''Cafe A'', ''service'')) (recorded sample_aspects))) * 100))"
    by (rule conjunct2)
  then obtain row where
    all: "ct_row (aspect_summary_percent sample_aspects) (''Cafe A'', ''service'') = Some row
           \<and> sum_list row = 100
           \<and> (\<forall>label \<in> set (ct_columns (aspect_summary_percent sample_aspects)).
                ct_cell (aspect_summary_percent sample_aspects) (''Cafe A'', ''service'') label
                  = Some (of_nat (group_size sample_aspects (''Cafe A'', ''service'') label)
                           / of_nat (length (filter (\<lambda>r. pair_of r = (''Cafe A'', ''service'')) (recorded sample_aspects))) * 100))" ..
  from all have row1: "ct_row (aspect_summary_percent sample_aspects) (''Cafe A'', ''service'') = Some row"
    by (rule conjunct1)
  from all have row2: "sum_list row = 100"
    by (rule conjunct1[OF conjunct2])
  from all have cells: "\<forall>label \<in> set (ct_columns (aspect_summary_percent sample_aspects)).
                ct_cell (aspect_summary_percent sample_aspects) (''Cafe A'', ''service'') label
                  = Some (of_nat (group_size sample_aspects (''Cafe A'', ''service'') label)
                           / of_nat (length (filter (\<lambda>r. pair_of r = (''Cafe A'', ''service'')) (recorded sample_aspects))) * 100)"
    by (rule conjunct2[OF conjunct2])
  from cells c have "ct_cell (aspect_summary_percent sample_aspects) (''Cafe A'', ''service'') (JStr ''positive'')
      = Some (of_nat (group_size sample_aspects (''Cafe A'', ''service'') (JStr ''positive''))
                           / of_nat (length (filter (\<lambda>r. pair_of r = (''Cafe A'', ''service'')) (recorded sample_aspects))) * 100)"
    by (rule bspec)
  then have cell: "ct_cell (aspect_summary_percent sample_aspects) (''Cafe A'', ''service'') (JStr ''positive'') = Some (200 / 3)"
    by (simp only: t g) simp
  have ex: "\<exists>row. ct_row (aspect_summary_percent sample_aspects) (''Cafe A'', ''service'') = Some row
          \<and> sum_list row = 100"
    using row1 row2 by (intro exI[of _ row] conjI)
  show ?thesis using h ex cell by (intro conjI)
qed

subsection \<open>C5: the location resolver\<close>

text \<open>
  Claim C5. When the geocode lookup returns at least one candidate and the first one
  carries its coordinates, the resolver returns exactly the latitude and longitude of
  that first candidate, whatever the other candidates are, and this pair is what the
  place search is called with. When the lookup returns no candidate, the resolver
  prints \<^verbatim>\<open>Location not found.\<close> and the run ends with status 1.
\<close>

theorem resolver_first_candidate:
  "(geocode gmaps location_input = Inr (c0 # others) \<and> geometry c0 = Some gm \<and> location gm = Some loc
      \<and> lat loc = Some lat_v \<and> lng loc = Some lng_v
     \<longrightarrow> resolve_location gmaps location_input = ([CallGeocode location_input], Inr (lat_v, lng_v))
         \<and> (\<forall>tr r. collect gmaps location_input business_type = Some (tr, r)
               \<longrightarrow> take 2 tr = [CallGeocode location_input,
                                 CallPlacesNearby (lat_v, lng_v) 2000 business_type business_type]))
   \<and> (geocode gmaps location_input = Inr []
     \<longrightarrow> resolve_location gmaps location_input =
           ([CallGeocode location_input, Print ''Location not found.''], Inl (SystemExit 1)))
   \<and> (startup w = (tr0, Inr (gmaps, client, location_input, business_type))
        \<and> geocode gmaps location_input = Inr []
     \<longrightarrow> main w = Some \<lparr>trace = tr0 @ [CallGeocode location_input, Print ''Location not found.''],
                         ending = Exit 1\<rparr>)"
proof (intro conjI impI)
  assume a: "geocode gmaps location_input = Inr (c0 # others) \<and> geometry c0 = Some gm \<and> location gm = Some loc
      \<and> lat loc = Some lat_v \<and> lng loc = Some lng_v"
  then have co: "coordinates c0 = Inr (lat_v, lng_v)" by (simp add: coordinates_def)
  with a show r: "resolve_location gmaps location_input = ([CallGeocode location_input], Inr (lat_v, lng_v))"
    by (simp add: resolve_location_def)
  show "\<forall>tr r. collect gmaps location_input business_type = Some (tr, r)
               \<longrightarrow> take 2 tr = [CallGeocode location_input,
                                 CallPlacesNearby (lat_v, lng_v) 2000 business_type business_type]"
    by (auto simp: collect_def r Let_def split: sum.splits list.splits option.splits)
next
  assume "geocode gmaps location_input = Inr []"
  then show "resolve_location gmaps location_input =
           ([CallGeocode location_input, Print ''Location not found.''], Inl (SystemExit 1))"
    by (simp add: resolve_location_def)
next
  assume a: "startup w = (tr0, Inr (gmaps, client, location_input, business_type))
        \<and> geocode gmaps location_input = Inr []"
  then have "collect gmaps location_input business_type
      = Some ([CallGeocode location_input, Print ''Location not found.''], Inl (SystemExit 1))"
    by (simp add: collect_exit_geocode)
  with a show "main w = Some \<lparr>trace = tr0 @ [CallGeocode location_input, Print ''Location not found.''],
                         ending = Exit 1\<rparr>"
    by (simp add: main_def main_logic_def guarded_def)
qed

text \<open>
  A lookup with two candidates gives the coordinates of the first; a lookup with none
  ends the run.
\<close>

theorem resolver_first_candidate_witness:
  "resolve_location busy_gmaps ''Mumbai CST'' = ([CallGeocode ''Mumbai CST''], Inr (19, 73))
   \<and> main (world_of nowhere_gmaps raising_client) =
       Some \<lparr>trace = [Input ''Enter city/location (e.g., Mumbai CST): '',
                      Input ''Enter type of business (e.g., restaurant, electronics_store): '',
                      CallGeocode ''Mumbai CST'', Print ''Location not found.''],
             ending = Exit 1\<rparr>"
proof -
  let ?c0 = "\<lparr>geometry = Some \<lparr>location = Some \<lparr>lat = Some (19::rat), lng = Some (73::rat)\<rparr>\<rparr>\<rparr>"
  let ?c1 = "\<lparr>geometry = Some \<lparr>location = Some \<lparr>lat = Some (0::rat), lng = Some (0::rat)\<rparr>\<rparr>\<rparr>"
  have h1: "geocode busy_gmaps ''Mumbai CST'' = Inr (?c0 # [?c1]) \<and> geometry ?c0 = Some \<lparr>location = Some \<lparr>lat = Some 19, lng = Some 73\<rparr>\<rparr>
      \<and> location \<lparr>location = Some \<lparr>lat = Some (19::rat), lng = Some (73::rat)\<rparr>\<rparr> = Some \<lparr>lat = Some 19, lng = Some 73\<rparr>
      \<and> lat \<lparr>lat = Some (19::rat), lng = Some (73::rat)\<rparr> = Some 19 \<and> lng \<lparr>lat = Some (19::rat), lng = Some (73::rat)\<rparr> = Some 73"
    by (simp add: busy_gmaps_def)
  have a: "resolve_location busy_gmaps ''Mumbai CST'' = ([CallGeocode ''Mumbai CST''], Inr (19, 73))"
    by (rule resolver_first_candidate[where gmaps = busy_gmaps and location_input = "''Mumbai CST''"
          and ?c0.0 = ?c0 and others = "[?c1]",
          THEN conjunct1, THEN mp, OF h1, THEN conjunct1])
  have h2: "startup (world_of nowhere_gmaps raising_client)
        = ([Input ''Enter city/location (e.g., Mumbai CST): '',
            Input ''Enter type of business (e.g., restaurant, electronics_store): ''],
           Inr (nowhere_gmaps, raising_client, ''Mumbai CST'', ''cafe''))
      \<and> geocode nowhere_gmaps ''Mumbai CST'' = Inr []"
    by (simp add: startup_world_of nowhere_gmaps_def)
  have b: "main (world_of nowhere_gmaps raising_client) =
       Some \<lparr>trace = [Input ''Enter city/location (e.g., Mumbai CST): '',
                      Input ''Enter type of business (e.g., restaurant, electronics_store): '']
                     @ [CallGeocode ''Mumbai CST'', Print ''Location not found.''],
             ending = Exit 1\<rparr>"
    by (rule resolver_first_candidate[THEN conjunct2, THEN conjunct2, THEN mp, OF h2])
  from a b show ?thesis by simp
qed

subsection \<open>C6: the pages of reviews\<close>

text \<open>
  Claim C6 as stated fails on its last part. The loop looks at the token only, never
  at the reviews: for a place without any review whose first answer still carries a
  token, the loop waits and calls a second time, and ends after two calls with no
  review collected.
\<close>

theorem zero_reviews_two_calls:
  "page_reviews (empty_page (Some ''tok1'')) = [] \<and> page_reviews (empty_page None) = []
   \<and> user_ratings_total quiet_place = Some 0
   \<and> fetch_reviews quiet_gmaps ''p1'' ''Cafe A'' ''1 Main St'' 0 0 None [] [] =
       Some ([CallPlace ''p1'' None, Sleep 2, CallPlace ''p1'' (Some ''tok1'')], Inr [], 2)"
  by (simp add: quiet_fetch page_reviews_def empty_page_def quiet_place_def)

text \<open>
  Claim C6, amended. For every place the loop makes its first details call without a
  token. Given the answers \<open>ds\<close> to the successive calls, each but the last with a
  token and the last without, the loop makes exactly these calls, waits 2 before each
  call after the first, passes the token of the answer before, returns the reviews of
  all pages in one list after what was collected before, and stops after the last of
  them; every run that returns reviews is of this kind; and when every answer carries a
  token the loop never ends. In particular, when the first answer carries no token (as
  for a place without reviews whose answer has none), the loop ends after that first
  call.
\<close>

theorem pagination_follows_tokens:
  "(ds \<noteq> [] \<longrightarrow> hd (page_events pid None ds) = CallPlace pid None)
   \<and> (ds \<noteq> [] \<and> page_run g pid k None ds \<and> (\<forall>d \<in> set (butlast ds). truthy (next_page_token d))
        \<and> \<not> truthy (next_page_token (last ds))
      \<longrightarrow> fetch_reviews g pid nm address rc k None tr acc =
            Some (tr @ page_events pid None ds, Inr (acc @ page_rows nm address rc ds), k + length ds))
   \<and> (\<forall>tr' acc' k'. fetch_reviews g pid nm address rc k None tr acc = Some (tr', Inr acc', k')
        \<longrightarrow> (\<exists>ps. ps \<noteq> [] \<and> page_run g pid k None ps \<and> (\<forall>d \<in> set (butlast ps). truthy (next_page_token d))
               \<and> \<not> truthy (next_page_token (last ps)) \<and> k' = k + length ps))
   \<and> (always_token g pid \<longrightarrow> fetch_reviews g pid nm address rc k None tr acc = None)
   \<and> (place g k pid None = Inr d0 \<and> \<not> truthy (next_page_token d0)
        \<longrightarrow> fetch_reviews g pid nm address rc k None tr acc =
            Some (tr @ [CallPlace pid None], Inr (acc @ map (review_entry nm address rc) (page_reviews d0)), Suc k))"
proof (intro conjI)
  show "ds \<noteq> [] \<longrightarrow> hd (page_events pid None ds) = CallPlace pid None"
  proof (cases ds)
    case Nil
    then show ?thesis by simp
  next
    case (Cons d ds')
    then show ?thesis by (cases ds') simp_all
  qed
  show "ds \<noteq> [] \<and> page_run g pid k None ds \<and> (\<forall>d \<in> set (butlast ds). truthy (next_page_token d))
        \<and> \<not> truthy (next_page_token (last ds))
      \<longrightarrow> fetch_reviews g pid nm address rc k None tr acc =
            Some (tr @ page_events pid None ds, Inr (acc @ page_rows nm address rc ds), k + length ds)"
    using fetch_finite_run[of ds g pid k None nm address rc tr acc] by blast
  show "\<forall>tr' acc' k'. fetch_reviews g pid nm address rc k None tr acc = Some (tr', Inr acc', k')
        \<longrightarrow> (\<exists>ps. ps \<noteq> [] \<and> page_run g pid k None ps \<and> (\<forall>d \<in> set (butlast ps). truthy (next_page_token d))
               \<and> \<not> truthy (next_page_token (last ps)) \<and> k' = k + length ps)"
    using fetch_returns_run_aux[of g pid nm address rc k None tr acc] by blast
  show "always_token g pid \<longrightarrow> fetch_reviews g pid nm address rc k None tr acc = None"
    using fetch_never_ends[of g pid nm address rc k None tr acc] by blast
  show "place g k pid None = Inr d0 \<and> \<not> truthy (next_page_token d0)
        \<longrightarrow> fetch_reviews g pid nm address rc k None tr acc =
            Some (tr @ [CallPlace pid None], Inr (acc @ map (review_entry nm address rc) (page_reviews d0)), Suc k)"
    using fetch_last[of g k pid None d0 nm address rc tr acc] by simp
qed

text \<open>
  Two pages of one review each: two calls, one wait, two rows.
\<close>

theorem pagination_follows_tokens_witness:
  "page_run busy_gmaps ''p2'' 0 None [page1, page2]
   \<and> truthy (next_page_token page1) \<and> \<not> truthy (next_page_token page2)
   \<and> fetch_reviews busy_gmaps ''p2'' ''Cafe B'' ''2 Main St'' 2 0 None [] [] =
       Some ([CallPlace ''p2'' None, Sleep 2, CallPlace ''p2'' (Some ''tok1'')],
             Inr [review_entry ''Cafe B'' ''2 Main St'' 2 review1, review_entry ''Cafe B'' ''2 Main St'' 2 review2],
             2)"
proof -
  have run: "page_run busy_gmaps ''p2'' 0 None [page1, page2]"
    by (simp add: busy_gmaps_def page1_def)
  have t1: "truthy (next_page_token page1)" by (simp add: page1_def)
  have t2: "\<not> truthy (next_page_token page2)" by (simp add: page2_def)
  have pre: "[page1, page2] \<noteq> [] \<and> page_run busy_gmaps ''p2'' 0 None [page1, page2]
        \<and> (\<forall>d \<in> set (butlast [page1, page2]). truthy (next_page_token d))
        \<and> \<not> truthy (next_page_token (last [page1, page2]))"
    using run t1 t2 by simp
  have ev: "page_events ''p2'' None [page1, page2] = [CallPlace ''p2'' None, Sleep 2, CallPlace ''p2'' (Some ''tok1'')]"
    by (simp add: page1_def)
  have rw: "page_rows ''Cafe B'' ''2 Main St'' 2 [page1, page2]
      = [review_entry ''Cafe B'' ''2 Main St'' 2 review1, review_entry ''Cafe B'' ''2 Main St'' 2 review2]"
    by (simp add: page_rows_def page_reviews_def page1_def page2_def)
  have "fetch_reviews busy_gmaps ''p2'' ''Cafe B'' ''2 Main St'' 2 0 None [] [] =
            Some ([] @ page_events ''p2'' None [page1, page2],
                  Inr ([] @ page_rows ''Cafe B'' ''2 Main St'' 2 [page1, page2]), 0 + length [page1, page2])"
    by (rule pagination_follows_tokens[where ds = "[page1, page2]" and pid = "''p2''" and g = busy_gmaps
          and k = 0 and nm = "''Cafe B''" and address = "''2 Main St''" and rc = 2 and tr = "[]" and acc = "[]",
          THEN conjunct2, THEN conjunct1, THEN mp, OF pre])
  then have "fetch_reviews busy_gmaps ''p2'' ''Cafe B'' ''2 Main St'' 2 0 None [] [] =
       Some ([CallPlace ''p2'' None, Sleep 2, CallPlace ''p2'' (Some ''tok1'')],
             Inr [review_entry ''Cafe B'' ''2 Main St'' 2 review1, review_entry ''Cafe B'' ''2 Main St'' 2 review2],
             2)"
    by (simp only: ev rw) simp
  with run t1 t2 show ?thesis by (intro conjI)
qed

subsection \<open>C7: the persisted table\<close>

text \<open>
  Claim C7. Whenever a run writes a file, it writes exactly one, named
  \<^verbatim>\<open>competitor_data.csv\<close>, with exactly the columns Business, Rating, Reviews_Count,
  Address and exactly one row per place of the place search result, in the order of
  that result; the row of a place holds its name, rating, review count and address
  (with the defaults of lines 91 to 94).
\<close>

theorem csv_rows_are_places:
  assumes "main w = Some out" "WriteCsv f df \<in> set (trace out)"
  shows "f = ''competitor_data.csv''
     \<and> columns df = [''Business'', ''Rating'', ''Reviews_Count'', ''Address'']
     \<and> length (filter is_WriteCsv (trace out)) = 1
     \<and> (\<exists>tr0 g c loc bt latlng resp ps.
           startup w = (tr0, Inr (g, c, loc, bt)) \<and> snd (resolve_location g loc) = Inr latlng
           \<and> places_nearby g latlng 2000 bt bt = Inr resp \<and> results resp = Some ps
           \<and> rows df = map (\<lambda>p. cells (business_entry p)) ps \<and> length (rows df) = length ps)
     \<and> (\<forall>p. cells (business_entry p) =
              [CStr (get_default (name p) ''N/A''),
               (case rating p of None \<Rightarrow> CNone | Some x \<Rightarrow> CFloat x),
               CInt (get_default (user_ratings_total p) 0),
               CStr (get_default (vicinity p) ''N/A'')])"
proof -
  obtain tr0 s where st: "startup w = (tr0, s)" by (cases "startup w")
  have e0: "\<forall>e \<in> set tr0. early e \<and> late e" using startup_events[of _ w] st by auto
  have cellsp: "\<forall>p. cells (business_entry p) =
              [CStr (get_default (name p) ''N/A''),
               (case rating p of None \<Rightarrow> CNone | Some x \<Rightarrow> CFloat x),
               CInt (get_default (user_ratings_total p) 0),
               CStr (get_default (vicinity p) ''N/A'')]"
    by (simp add: cells_def business_entry_def)
  show ?thesis
  proof (cases s)
    case (Inl e)
    with st assms(1) have "trace out = tr0" by (auto simp: main_def)
    with assms(2) e0 show ?thesis by (auto simp: early_def)
  next
    case (Inr x)
    obtain g c loc bt where x: "x = (g, c, loc, bt)" by (cases x)
    from st Inr x have ok: "startup w = (tr0, Inr (g, c, loc, bt))" by simp
    from assms(1) ok have gd: "guarded tr0 (main_logic g c (lib w) loc bt) = Some out" by (simp add: main_def)
    from guarded_None[OF gd] obtain tr r where ml: "main_logic g c (lib w) loc bt = Some (tr, r)" by blast
    from gd ml guarded_trace[of tr0 tr r out] obtain post where
      tro: "trace out = tr0 @ tr @ post" and po: "\<forall>e \<in> set post. late e \<and> early e" by auto
    from main_logic_split[OF ml] obtain pre post' where
      sp: "tr = pre @ post'" "\<forall>e \<in> set post'. late e" "length (filter is_WriteCsv pre) \<le> 1"
        "\<forall>f d. WriteCsv f d \<in> set pre \<longrightarrow> f = ''competitor_data.csv'' \<and>
           (\<exists>trA bd rd. collect g loc bt = Some (trA, Inr (bd, rd)) \<and> d = DataFrame bd)"
      by blast
    have inpre: "WriteCsv f df \<in> set pre"
      using assms(2) tro sp(1,2) e0 po by (auto simp: early_def late_def)
    with sp(4) obtain trA bd rd where
      f: "f = ''competitor_data.csv''" and c: "collect g loc bt = Some (trA, Inr (bd, rd))" and d: "df = DataFrame bd"
      by blast
    from collect_data[OF c] obtain latlng resp ps where
      ps: "snd (resolve_location g loc) = Inr latlng" "places_nearby g latlng 2000 bt bt = Inr resp"
        "results resp = Some ps" "ps \<noteq> []" "bd = map business_entry ps" by blast
    have cols: "columns df = [''Business'', ''Rating'', ''Reviews_Count'', ''Address'']"
      using d ps(4,5) by (simp add: DataFrame_def)
    have rws: "rows df = map (\<lambda>p. cells (business_entry p)) ps" "length (rows df) = length ps"
      using d ps(5) by (simp_all add: DataFrame_def comp_def)
    have f0: "filter is_WriteCsv tr0 = []" using early_filter[of tr0] e0 by simp
    have f1: "filter is_WriteCsv post' = []" using late_filter[OF sp(2)] by simp
    have f2: "filter is_WriteCsv post = []" using late_filter[of post] po by simp
    have "is_WriteCsv (WriteCsv f df)" by simp
    with inpre have "\<exists>e \<in> set pre. is_WriteCsv e" by blast
    then have "filter is_WriteCsv pre \<noteq> []" by (simp add: filter_empty_conv)
    with sp(3) have "length (filter is_WriteCsv pre) = 1"
      by (cases "filter is_WriteCsv pre") auto
    then have cnt: "length (filter is_WriteCsv (trace out)) = 1"
      using tro sp(1) f0 f1 f2 by simp
    have ex: "\<exists>tr0 g c loc bt latlng resp ps.
           startup w = (tr0, Inr (g, c, loc, bt)) \<and> snd (resolve_location g loc) = Inr latlng
           \<and> places_nearby g latlng 2000 bt bt = Inr resp \<and> results resp = Some ps
           \<and> rows df = map (\<lambda>p. cells (business_entry p)) ps \<and> length (rows df) = length ps"
      using ok ps(1,2,3) rws by blast
    from f cols cnt ex cellsp show ?thesis by (intro conjI)
  qed
qed

text \<open>
  The run with one place without a rating writes one file of one row, with an empty
  rating cell, before the addition of line 137 raises.
\<close>

theorem csv_rows_are_places_witness:
  "\<exists>out. main (world_of quiet_gmaps raising_client) = Some out
     \<and> WriteCsv ''competitor_data.csv'' (DataFrame [business_entry quiet_place]) \<in> set (trace out)
     \<and> columns (DataFrame [business_entry quiet_place]) = [''Business'', ''Rating'', ''Reviews_Count'', ''Address'']
     \<and> rows (DataFrame [business_entry quiet_place]) = [[CStr ''Cafe A'', CNone, CInt 0, CStr ''1 Main St'']]
     \<and> length (filter is_WriteCsv (trace out)) = 1"
proof -
  let ?w = "world_of quiet_gmaps raising_client"
  let ?df = "DataFrame [business_entry quiet_place]"
  obtain out where m: "main ?w = Some out" by (simp add: quiet_main)
  then have mem: "WriteCsv ''competitor_data.csv'' ?df \<in> set (trace out)"
    by (auto simp: quiet_main)
  from csv_rows_are_places[OF m mem] have
    c: "columns ?df = [''Business'', ''Rating'', ''Reviews_Count'', ''Address'']"
    and n: "length (filter is_WriteCsv (trace out)) = 1" by blast+
  have r: "rows ?df = [[CStr ''Cafe A'', CNone, CInt 0, CStr ''1 Main St'']]"
    by (simp add: DataFrame_def cells_def business_entry_def quiet_place_def)
  from m mem c r n show ?thesis by blast
qed

subsection \<open>C8: reading the table back\<close>



subsection \<open>C9: one result per review, in order\<close>

text \<open>
  Claim C9. For every list of review texts the extraction stage returns a list of the
  same length, and the element at position i belongs to the review at position i. With
  \<open>ki\<close> the number of completion calls made when that review starts (\<open>k\<close> for the first
  one, and the number of calls is the number of call events): if attempt \<open>j\<close> is the
  first whose answer has text that is not blank and parses, the element is exactly the
  value parsed from that answer and the review used \<open>j + 1\<close> calls; if all attempts
  fail, the element is the empty mapping and the review used all its attempts. So
  each review appends exactly one element: its parsed mapping on success, the empty
  mapping on exhaustion.
\<close>

theorem batch_results_positional:
  "\<exists>tr vs k'. analyze_reviews_batch client k review_texts retries = (tr, Inr vs, k')
     \<and> length vs = length review_texts
     \<and> k' = k + length (filter is_CallGenerate tr)
     \<and> snd (snd (analyze_reviews_batch client k [] retries)) = k
     \<and> (\<forall>i<length review_texts.
          (let ki = snd (snd (analyze_reviews_batch client k (take i review_texts) retries));
               kn = snd (snd (analyze_reviews_batch client k (take (Suc i) review_texts) retries))
           in fst (snd (retry_loop client ki (review_texts ! i) 0 retries)) = Inr (vs ! i)
              \<and> (\<forall>j v. j < retries \<and> (\<forall>m<j. attempt_fails client (ki + m) (review_texts ! i))
                         \<and> parsed_answer client (ki + j) (review_texts ! i) = Some v
                       \<longrightarrow> vs ! i = v \<and> kn = ki + j + 1)
              \<and> ((\<forall>m<retries. attempt_fails client (ki + m) (review_texts ! i))
                    \<longrightarrow> vs ! i = JObj [] \<and> kn = ki + retries)))"
proof -
  obtain tb rb kb where bl: "batch_loop client k review_texts retries [] = (tb, rb, kb)"
    by (cases "batch_loop client k review_texts retries []")
  from batch_loop_Inr[of client k review_texts retries "[]"] bl obtain vs where
    vs: "rb = Inr vs" "length vs = length review_texts"
      "\<forall>i<length review_texts. fst (snd (retry_loop client (snd (snd (batch_loop client k (take i review_texts) retries []))) (review_texts ! i) 0 retries))
        = Inr (vs ! i)" by auto
  from batch_loop_calls[OF bl] have cnt: "kb = k + length (filter is_CallGenerate tb)" by simp
  have per: "\<forall>i<length review_texts.
          (let ki = snd (snd (analyze_reviews_batch client k (take i review_texts) retries));
               kn = snd (snd (analyze_reviews_batch client k (take (Suc i) review_texts) retries))
           in fst (snd (retry_loop client ki (review_texts ! i) 0 retries)) = Inr (vs ! i)
              \<and> (\<forall>j v. j < retries \<and> (\<forall>m<j. attempt_fails client (ki + m) (review_texts ! i))
                         \<and> parsed_answer client (ki + j) (review_texts ! i) = Some v
                       \<longrightarrow> vs ! i = v \<and> kn = ki + j + 1)
              \<and> ((\<forall>m<retries. attempt_fails client (ki + m) (review_texts ! i))
                    \<longrightarrow> vs ! i = JObj [] \<and> kn = ki + retries))"
  proof (intro allI impI)
    fix i assume i: "i < length review_texts"
    let ?ki = "snd (snd (batch_loop client k (take i review_texts) retries []))"
    let ?kn = "snd (snd (batch_loop client k (take (Suc i) review_texts) retries []))"
    let ?r = "review_texts ! i"
    from vs(3) i have res: "fst (snd (retry_loop client ?ki ?r 0 retries)) = Inr (vs ! i)" by blast
    from batch_loop_counter_step[OF i, of client k retries "[]"]
    have kn: "?kn = snd (snd (retry_loop client ?ki ?r 0 retries))" .
    have a: "\<forall>j v. j < retries \<and> (\<forall>m<j. attempt_fails client (?ki + m) ?r)
                         \<and> parsed_answer client (?ki + j) ?r = Some v
                       \<longrightarrow> vs ! i = v \<and> ?kn = ?ki + j + 1"
    proof (intro allI impI)
      fix j v
      assume h: "j < retries \<and> (\<forall>m<j. attempt_fails client (?ki + m) ?r)
                         \<and> parsed_answer client (?ki + j) ?r = Some v"
      from h have h1: "j < retries" and h2: "\<forall>m<j. attempt_fails client (?ki + m) ?r"
        and h3: "parsed_answer client (?ki + j) ?r = Some v" by blast+
      from retry_first_success[OF h1 h2 h3, of 0] res kn
      show "vs ! i = v \<and> ?kn = ?ki + j + 1" by simp
    qed
    have b: "(\<forall>m<retries. attempt_fails client (?ki + m) ?r) \<longrightarrow> vs ! i = JObj [] \<and> ?kn = ?ki + retries"
    proof
      assume "\<forall>m<retries. attempt_fails client (?ki + m) ?r"
      from retry_loop_all_fail[OF this, of 0] res kn show "vs ! i = JObj [] \<and> ?kn = ?ki + retries" by simp
    qed
    from res a b show "(let ki = snd (snd (analyze_reviews_batch client k (take i review_texts) retries));
               kn = snd (snd (analyze_reviews_batch client k (take (Suc i) review_texts) retries))
           in fst (snd (retry_loop client ki (review_texts ! i) 0 retries)) = Inr (vs ! i)
              \<and> (\<forall>j v. j < retries \<and> (\<forall>m<j. attempt_fails client (ki + m) (review_texts ! i))
                         \<and> parsed_answer client (ki + j) (review_texts ! i) = Some v
                       \<longrightarrow> vs ! i = v \<and> kn = ki + j + 1)
              \<and> ((\<forall>m<retries. attempt_fails client (ki + m) (review_texts ! i))
                    \<longrightarrow> vs ! i = JObj [] \<and> kn = ki + retries))"
      unfolding Let_def analyze_reviews_batch_def by (intro conjI)
  qed
  have base: "snd (snd (analyze_reviews_batch client k [] retries)) = k"
    by (simp add: analyze_reviews_batch_def)
  from bl vs(1,2) cnt base per show ?thesis
    by (intro exI[of _ tb] exI[of _ vs] exI[of _ kb] conjI) (simp_all add: analyze_reviews_batch_def)
qed

text \<open>
  Two reviews: the first exhausts its three attempts and gets the empty mapping, the
  second parses at its first attempt, the fourth call of the run.
\<close>

theorem batch_results_positional_witness:
  "attempt_fails failing_client 0 ''great food'' \<and> attempt_fails failing_client 1 ''great food''
   \<and> attempt_fails failing_client 2 ''great food''
   \<and> parsed_answer failing_client 3 ''slow service'' = Some (JObj [(''food'', JStr ''positive'')])
   \<and> (\<exists>tr k'. analyze_reviews_batch failing_client 0 [''great food'', ''slow service''] 3
                 = (tr, Inr [JObj [], JObj [(''food'', JStr ''positive'')]], k'))"
proof -
  let ?rs = "[''great food'', ''slow service'']"
  have f: "attempt_fails failing_client 0 ''great food''" "attempt_fails failing_client 1 ''great food''"
          "attempt_fails failing_client 2 ''great food''"
    by (simp_all add: attempt_fails_def failing_client_def strip_blank strip_not_json sample_reply_other)
  have pa: "parsed_answer failing_client 3 ''slow service'' = Some (JObj [(''food'', JStr ''positive'')])"
    by (simp add: parsed_answer_def failing_client_def strip_sample_reply sample_reply_nonempty)
  from batch_results_positional[of failing_client 0 ?rs 3] obtain tr vs k' where
    a: "analyze_reviews_batch failing_client 0 ?rs 3 = (tr, Inr vs, k')"
    and len: "length vs = length ?rs"
    and base: "snd (snd (analyze_reviews_batch failing_client 0 [] 3)) = 0"
    and p: "\<forall>i<length ?rs.
          (let ki = snd (snd (analyze_reviews_batch failing_client 0 (take i ?rs) 3));
               kn = snd (snd (analyze_reviews_batch failing_client 0 (take (Suc i) ?rs) 3))
           in fst (snd (retry_loop failing_client ki (?rs ! i) 0 3)) = Inr (vs ! i)
              \<and> (\<forall>j v. j < 3 \<and> (\<forall>m<j. attempt_fails failing_client (ki + m) (?rs ! i))
                         \<and> parsed_answer failing_client (ki + j) (?rs ! i) = Some v
                       \<longrightarrow> vs ! i = v \<and> kn = ki + j + 1)
              \<and> ((\<forall>m<3. attempt_fails failing_client (ki + m) (?rs ! i))
                    \<longrightarrow> vs ! i = JObj [] \<and> kn = ki + 3))"
    by (elim exE conjE)
  have l0: "0 < length ?rs" and l1: "Suc 0 < length ?rs" by simp_all
  have h0: "\<forall>m<3. attempt_fails failing_client
               (snd (snd (analyze_reviews_batch failing_client 0 (take 0 ?rs) 3)) + m) (?rs ! 0)"
    using base by (simp add: failing_first3)
  from p[rule_format, OF l0, unfolded Let_def, THEN conjunct2, THEN conjunct2, THEN mp, OF h0] base
  have r0: "vs ! 0 = JObj []"
    and k1: "snd (snd (analyze_reviews_batch failing_client 0 [''great food''] 3)) = 3"
    by simp_all
  from p[rule_format, OF l1] k1
  have "\<forall>j v. j < 3 \<and> (\<forall>m<j. attempt_fails failing_client (3 + m) ''slow service'')
                         \<and> parsed_answer failing_client (3 + j) ''slow service'' = Some v
                       \<longrightarrow> vs ! Suc 0 = v"
    by (simp add: Let_def)
  from this[rule_format, of 0 "JObj [(''food'', JStr ''positive'')]"] pa
  have r1: "vs ! Suc 0 = JObj [(''food'', JStr ''positive'')]" by simp
  from len obtain x y where xy: "vs = [x, y]"
    by (cases vs; cases "tl vs"; cases "tl (tl vs)") auto
  with r0 r1 have "vs = [JObj [], JObj [(''food'', JStr ''positive'')]]" by simp
  with a have "\<exists>tr k'. analyze_reviews_batch failing_client 0 ?rs 3
                 = (tr, Inr [JObj [], JObj [(''food'', JStr ''positive'')]], k')" by blast
  with f pa show ?thesis by (intro conjI)
qed

subsection \<open>C10: the file comes before the extraction\<close>

text \<open>
  Claim C10. In every run that ends, the writing of the file and the scatter plot come
  before any completion call; a run that issues a completion call has written the file
  and shown the scatter plot, once each; and in any other world that differs only in
  what the extraction and the aspect report meet (the completion answers,
  \<^verbatim>\<open>json.loads\<close>, the summary and bar plot steps), the run ends too and writes the
  same file and shows the same scatter plot.
\<close>

theorem csv_before_extraction:
  assumes "main w = Some out"
  shows "(\<forall>i j. i < length (trace out) \<and> j < length (trace out) \<and> is_CallGenerate (trace out ! i)
              \<and> (is_WriteCsv (trace out ! j) \<or> is_ShowScatter (trace out ! j)) \<longrightarrow> j < i)
     \<and> ((\<exists>e \<in> set (trace out). is_CallGenerate e)
          \<longrightarrow> length (filter is_WriteCsv (trace out)) = 1 \<and> length (filter is_ShowScatter (trace out)) = 1)
     \<and> (\<forall>w'. same_before_extraction w w'
          \<longrightarrow> (\<exists>out'. main w' = Some out'
                 \<and> filter is_WriteCsv (trace out') = filter is_WriteCsv (trace out)
                 \<and> filter is_ShowScatter (trace out') = filter is_ShowScatter (trace out)))"
proof (intro conjI)
  from main_split[OF assms] obtain pre post where
    sp: "trace out = pre @ post" "\<forall>e \<in> set pre. \<not> is_CallGenerate e" "\<forall>e \<in> set post. late e"
      "(\<exists>e \<in> set post. is_CallGenerate e)
          \<longrightarrow> length (filter is_WriteCsv pre) = 1 \<and> length (filter is_ShowScatter pre) = 1" by blast
  have nl: "\<forall>e \<in> set post. \<not> (is_WriteCsv e \<or> is_ShowScatter e)" using sp(3) by (auto simp: late_def)
  show "\<forall>i j. i < length (trace out) \<and> j < length (trace out) \<and> is_CallGenerate (trace out ! i)
              \<and> (is_WriteCsv (trace out ! j) \<or> is_ShowScatter (trace out ! j)) \<longrightarrow> j < i"
  proof (intro allI impI)
    fix i j
    assume h: "i < length (trace out) \<and> j < length (trace out) \<and> is_CallGenerate (trace out ! i)
              \<and> (is_WriteCsv (trace out ! j) \<or> is_ShowScatter (trace out ! j))"
    show "j < i"
      by (rule split_order[where P = is_CallGenerate and Q = "\<lambda>e. is_WriteCsv e \<or> is_ShowScatter e",
            OF sp(1) sp(2) nl]) (use h in simp_all)
  qed
  show "(\<exists>e \<in> set (trace out). is_CallGenerate e)
          \<longrightarrow> length (filter is_WriteCsv (trace out)) = 1 \<and> length (filter is_ShowScatter (trace out)) = 1"
  proof
    assume "\<exists>e \<in> set (trace out). is_CallGenerate e"
    then have "\<exists>e \<in> set post. is_CallGenerate e" using sp(1,2) by auto
    with sp(4) have "length (filter is_WriteCsv pre) = 1 \<and> length (filter is_ShowScatter pre) = 1" by blast
    moreover from late_filter[OF sp(3)] have "filter is_WriteCsv post = []" "filter is_ShowScatter post = []"
      by simp_all
    ultimately show "length (filter is_WriteCsv (trace out)) = 1 \<and> length (filter is_ShowScatter (trace out)) = 1"
      using sp(1) by simp
  qed
  show "\<forall>w'. same_before_extraction w w'
          \<longrightarrow> (\<exists>out'. main w' = Some out'
                 \<and> filter is_WriteCsv (trace out') = filter is_WriteCsv (trace out)
                 \<and> filter is_ShowScatter (trace out') = filter is_ShowScatter (trace out))"
  proof (intro allI impI)
    fix w' assume same: "same_before_extraction w w'"
    obtain tr0 s where st: "startup w = (tr0, s)" by (cases "startup w")
    have e0: "\<forall>e \<in> set tr0. early e" using startup_events[of _ w] st by auto
    from early_filter[OF e0] have f0: "filter is_WriteCsv tr0 = []" "filter is_ShowScatter tr0 = []" by simp_all
    show "\<exists>out'. main w' = Some out'
                 \<and> filter is_WriteCsv (trace out') = filter is_WriteCsv (trace out)
                 \<and> filter is_ShowScatter (trace out') = filter is_ShowScatter (trace out)"
    proof (cases s)
      case (Inl e)
      with st assms have o: "trace out = tr0" by (auto simp: main_def)
      from startup_same[OF same, of tr0 e] st Inl obtain e' where "startup w' = (tr0, Inl e')" by auto
      then have "main w' = Some \<lparr>trace = tr0, ending = e'\<rparr>" by (simp add: main_def)
      with o show ?thesis by simp
    next
      case (Inr x)
      obtain g c loc bt where x: "x = (g, c, loc, bt)" by (cases x)
      from st Inr x have ok: "startup w = (tr0, Inr (g, c, loc, bt))" by simp
      from startup_same[OF same, of tr0 _ g c loc bt] ok obtain c' where
        ok': "startup w' = (tr0, Inr (g, c', loc, bt))" by auto
      from assms ok have gd: "guarded tr0 (main_logic g c (lib w) loc bt) = Some out" by (simp add: main_def)
      from guarded_None[OF gd] obtain tr r where ml: "main_logic g c (lib w) loc bt = Some (tr, r)" by blast
      then have "collect g loc bt \<noteq> None" using main_logic_None[of g c "lib w" loc bt] by simp
      then have "main_logic g c' (lib w') loc bt \<noteq> None" by (simp add: main_logic_None)
      then obtain tr' r' where ml': "main_logic g c' (lib w') loc bt = Some (tr', r')" by auto
      from guarded_total[of tr0 "(tr', r')"] obtain out' where gd': "guarded tr0 (Some (tr', r')) = Some out'"
        by blast
      with ok' ml' have m': "main w' = Some out'" by (simp add: main_def)
      from same have lb: "to_csv (lib w') = to_csv (lib w)" "scatter_plot (lib w') = scatter_plot (lib w)"
        by (simp_all add: same_before_extraction_def)
      from main_logic_filters[OF ml ml' lb] have
        ff: "filter is_WriteCsv tr' = filter is_WriteCsv tr" "filter is_ShowScatter tr' = filter is_ShowScatter tr"
        by simp_all
      from gd ml guarded_trace[of tr0 tr r out] obtain post where
        tro: "trace out = tr0 @ tr @ post" and po: "\<forall>e \<in> set post. late e \<and> early e" by auto
      from guarded_trace[OF gd'] obtain post2 where
        tro': "trace out' = tr0 @ tr' @ post2" and po': "\<forall>e \<in> set post2. late e \<and> early e" by auto
      have p1: "filter is_WriteCsv post = []" "filter is_ShowScatter post = []"
        using late_filter[of post] po by simp_all
      have p2: "filter is_WriteCsv post2 = []" "filter is_ShowScatter post2 = []"
        using late_filter[of post2] po' by simp_all
      from m' tro tro' ff p1 p2 show ?thesis by simp
    qed
  qed
qed

text \<open>
  The same place and reviews with a completion service that answers at the fourth call
  and with one that always raises: the same file is written in both runs.
\<close>

theorem csv_before_extraction_witness:
  "\<exists>out out'. main (world_of busy_gmaps failing_client) = Some out
     \<and> (\<exists>e \<in> set (trace out). is_CallGenerate e)
     \<and> length (filter is_WriteCsv (trace out)) = 1 \<and> length (filter is_ShowScatter (trace out)) = 1
     \<and> same_before_extraction (world_of busy_gmaps failing_client) (world_of busy_gmaps raising_client)
     \<and> main (world_of busy_gmaps raising_client) = Some out'
     \<and> filter is_WriteCsv (trace out') = filter is_WriteCsv (trace out)"
proof -
  from busy_main[of failing_client] obtain out where
    m: "main (world_of busy_gmaps failing_client) = Some out" and g: "\<exists>e \<in> set (trace out). is_CallGenerate e"
    by blast
  have same: "same_before_extraction (world_of busy_gmaps failing_client) (world_of busy_gmaps raising_client)"
    by (simp add: same_before_extraction_def world_of_def)
  from csv_before_extraction[OF m] have
    two: "(\<exists>e \<in> set (trace out). is_CallGenerate e)
          \<longrightarrow> length (filter is_WriteCsv (trace out)) = 1 \<and> length (filter is_ShowScatter (trace out)) = 1"
    and three: "\<forall>w'. same_before_extraction (world_of busy_gmaps failing_client) w'
          \<longrightarrow> (\<exists>out'. main w' = Some out'
                 \<and> filter is_WriteCsv (trace out') = filter is_WriteCsv (trace out)
                 \<and> filter is_ShowScatter (trace out') = filter is_ShowScatter (trace out))"
    by blast+
  from two g have n: "length (filter is_WriteCsv (trace out)) = 1" "length (filter is_ShowScatter (trace out)) = 1"
    by blast+
  from three same obtain out' where
    o: "main (world_of busy_gmaps raising_client) = Some out'"
       "filter is_WriteCsv (trace out') = filter is_WriteCsv (trace out)" by blast
  from m g n same o show ?thesis by blast
qed

end
